theory Spec2Isabelle
  imports Main
begin

section \<open>Data model of the annotation store\<close>

text \<open>
  The store keeps a list of markers and a list of spans. A span carries no times of its own:
  it names two markers, and its interval is read off their times. Times are milliseconds
  and are modelled as integers; identifiers are strings. The read-only ELAN display fields
  of the store are touched by none of the operations below and are left out.
\<close>

record Marker =
  m_id :: string
  m_time :: int
  m_typeId :: string
  m_tierId :: string
  m_videoId :: string
  m_confirmed :: bool
  m_value :: "string option"

record AnnotationSpan =
  sp_id :: string
  startMarkerId :: string
  endMarkerId :: string
  sp_tierId :: string
  sp_videoId :: string
  gloss :: string

record AnnotationState =
  markers :: "Marker list"
  spans :: "AnnotationSpan list"
  selectedMarkerId :: "string option"
  pendingMarkerId :: "string option"
  selectedSpanId :: "string option"
  editingSpanId :: "string option"

definition initial_state :: AnnotationState where
  "initial_state = \<lparr> markers = [], spans = [], selectedMarkerId = None,
     pendingMarkerId = None, selectedSpanId = None, editingSpanId = None \<rparr>"

text \<open>
  \<open>generateId\<close> prefixes a random UUID. The UUID is the only input the store takes from
  its environment, so every operation that creates an identifier receives it as an argument.
\<close>

definition generateId :: "string \<Rightarrow> string \<Rightarrow> string" where
  "generateId prefix uuid = (if prefix \<noteq> [] then prefix @ ''_'' @ uuid else uuid)"

text \<open>A string used as a condition is true exactly when it is not empty.\<close>

definition truthy :: "string \<Rightarrow> bool" where
  "truthy s = (s \<noteq> [])"

text \<open>\<open>markers.find((m) => m.id === i)\<close>: the first marker carrying the identifier.\<close>

definition find_marker :: "Marker list \<Rightarrow> string \<Rightarrow> Marker option" where
  "find_marker ms i = find (\<lambda>m. m_id m = i) ms"

definition find_span :: "AnnotationSpan list \<Rightarrow> string \<Rightarrow> AnnotationSpan option" where
  "find_span sps i = find (\<lambda>sp. sp_id sp = i) sps"

section \<open>Marker operations\<close>

definition placeMarker ::
  "string \<Rightarrow> int \<Rightarrow> string \<Rightarrow> string \<Rightarrow> AnnotationState \<Rightarrow> string \<times> AnnotationState" where
  "placeMarker uuid t tier video st =
     (let i = generateId ''m'' uuid;
          marker = \<lparr> m_id = i, m_time = t, m_typeId = [], m_tierId = tier,
                     m_videoId = video, m_confirmed = False, m_value = None \<rparr>
      in (i, st\<lparr> markers := markers st @ [marker],
                 selectedMarkerId := Some i,
                 pendingMarkerId := Some i \<rparr>))"

text \<open>
  The loop of \<open>confirmMarker\<close> over the spans: the first span on the marker's tier and
  video, with both anchors present, whose interval holds the marker's time strictly inside,
  yields its \<open>endMarkerId\<close>.
\<close>

fun snap_search :: "Marker list \<Rightarrow> Marker \<Rightarrow> AnnotationSpan list \<Rightarrow> string option" where
  "snap_search ms marker [] = None"
| "snap_search ms marker (span # rest) =
     (if sp_tierId span \<noteq> m_tierId marker \<or> sp_videoId span \<noteq> m_videoId marker
      then snap_search ms marker rest
      else case find_marker ms (startMarkerId span) of
        None \<Rightarrow> snap_search ms marker rest
      | Some startM \<Rightarrow>
          (case find_marker ms (endMarkerId span) of
             None \<Rightarrow> snap_search ms marker rest
           | Some endM \<Rightarrow>
               (let spanStart = min (m_time startM) (m_time endM);
                    spanEnd = max (m_time startM) (m_time endM)
                in if m_time marker > spanStart \<and> m_time marker < spanEnd
                   then Some (endMarkerId span)
                   else snap_search ms marker rest)))"

definition confirmMarker :: "string \<Rightarrow> string \<Rightarrow> AnnotationState \<Rightarrow> AnnotationState" where
  "confirmMarker markerId typeId st =
     (case find_marker (markers st) markerId of
        None \<Rightarrow> st
      | Some marker \<Rightarrow>
          (let snapEndMarkerId = snap_search (markers st) marker (spans st)
           in st\<lparr> markers :=
                     map (\<lambda>m. if m_id m = markerId
                               then m\<lparr> m_typeId := typeId, m_confirmed := True \<rparr>
                               else if (case snapEndMarkerId of
                                          None \<Rightarrow> False
                                        | Some e \<Rightarrow> truthy e \<and> m_id m = e)
                               then m\<lparr> m_time := m_time marker \<rparr>
                               else m)
                         (markers st),
                   pendingMarkerId :=
                     (if pendingMarkerId st = Some markerId then None
                      else pendingMarkerId st) \<rparr>))"

definition cancelPendingMarker :: "AnnotationState \<Rightarrow> AnnotationState" where
  "cancelPendingMarker st =
     (case pendingMarkerId st of
        None \<Rightarrow> st
      | Some p \<Rightarrow>
          if truthy p
          then st\<lparr> markers := filter (\<lambda>m. m_id m \<noteq> p) (markers st),
                    pendingMarkerId := None,
                    selectedMarkerId :=
                      (if selectedMarkerId st = Some p then None else selectedMarkerId st) \<rparr>
          else st)"

definition removeMarker :: "string \<Rightarrow> AnnotationState \<Rightarrow> AnnotationState" where
  "removeMarker i st =
     st\<lparr> markers := filter (\<lambda>m. m_id m \<noteq> i) (markers st),
          selectedMarkerId := (if selectedMarkerId st = Some i then None else selectedMarkerId st),
          pendingMarkerId := (if pendingMarkerId st = Some i then None else pendingMarkerId st),
          spans := filter (\<lambda>sp. startMarkerId sp \<noteq> i \<and> endMarkerId sp \<noteq> i) (spans st) \<rparr>"

section \<open>Span operations\<close>

text \<open>
  Every span operation resolves a span's two anchors and takes the smaller and the larger of
  their times; \<open>span_interval\<close> is that computation, \<open>None\<close> when an anchor is missing.
\<close>

definition span_interval :: "Marker list \<Rightarrow> AnnotationSpan \<Rightarrow> (int \<times> int) option" where
  "span_interval ms sp =
     (case find_marker ms (startMarkerId sp) of
        None \<Rightarrow> None
      | Some s \<Rightarrow>
          (case find_marker ms (endMarkerId sp) of
             None \<Rightarrow> None
           | Some e \<Rightarrow> Some (min (m_time s) (m_time e), max (m_time s) (m_time e))))"

text \<open>The test the store applies to two intervals: \<open>aStart < bEnd && bStart < aEnd\<close>.\<close>

definition overlaps :: "int \<times> int \<Rightarrow> int \<times> int \<Rightarrow> bool" where
  "overlaps I J = (fst I < snd J \<and> fst J < snd I)"

definition addSpan :: "string \<Rightarrow> AnnotationSpan \<Rightarrow> AnnotationState \<Rightarrow> AnnotationState" where
  "addSpan uuid span st =
     (case span_interval (markers st) span of
        None \<Rightarrow> st
      | Some new \<Rightarrow>
          (let overlapping =
                 list_ex (\<lambda>existing.
                     if sp_tierId existing \<noteq> sp_tierId span \<or> sp_videoId existing \<noteq> sp_videoId span
                     then False
                     else case span_interval (markers st) existing of
                            None \<Rightarrow> False
                          | Some exist \<Rightarrow> overlaps new exist)
                   (spans st)
           in if overlapping then st
              else st\<lparr> spans := spans st @ [span\<lparr> sp_id := generateId ''sp'' uuid \<rparr>] \<rparr>))"

definition removeSpan :: "string \<Rightarrow> AnnotationState \<Rightarrow> AnnotationState" where
  "removeSpan i st = st\<lparr> spans := filter (\<lambda>sp. sp_id sp \<noteq> i) (spans st) \<rparr>"

text \<open>\<open>parts.join(sep)\<close>.\<close>

fun join :: "string \<Rightarrow> string list \<Rightarrow> string" where
  "join sep [] = []"
| "join sep [x] = x"
| "join sep (x # y # ys) = x @ sep @ join sep (y # ys)"

definition mergeSpans :: "string \<Rightarrow> string \<Rightarrow> AnnotationState \<Rightarrow> bool \<times> AnnotationState" where
  "mergeSpans keepSpanId removeSpanId st =
     (case find_span (spans st) keepSpanId of
        None \<Rightarrow> (False, st)
      | Some keepSp \<Rightarrow>
     (case find_span (spans st) removeSpanId of
        None \<Rightarrow> (False, st)
      | Some removeSp \<Rightarrow>
     if sp_tierId keepSp \<noteq> sp_tierId removeSp \<or> sp_videoId keepSp \<noteq> sp_videoId removeSp
     then (False, st)
     else
     (case span_interval (markers st) keepSp of
        None \<Rightarrow> (False, st)
      | Some (keepStartMs, keepEndMs) \<Rightarrow>
     (case span_interval (markers st) removeSp of
        None \<Rightarrow> (False, st)
      | Some (removeStartMs, removeEndMs) \<Rightarrow>
     (let mergedStartMs = min keepStartMs removeStartMs;
          mergedEndMs = max keepEndMs removeEndMs;
          overlapsThird =
            list_ex (\<lambda>sp.
                if sp_id sp = keepSpanId \<or> sp_id sp = removeSpanId then False
                else if sp_tierId sp \<noteq> sp_tierId keepSp \<or> sp_videoId sp \<noteq> sp_videoId keepSp
                then False
                else case span_interval (markers st) sp of
                       None \<Rightarrow> False
                     | Some third \<Rightarrow> overlaps (mergedStartMs, mergedEndMs) third)
              (spans st)
      in if overlapsThird then (False, st)
         else
         (let isKeepFirst = (keepStartMs \<le> removeStartMs);
              finalStartMarkerId =
                (if isKeepFirst then startMarkerId keepSp else startMarkerId removeSp);
              finalEndMarkerId =
                (if isKeepFirst then endMarkerId removeSp else endMarkerId keepSp);
              removeMarkerIds =
                filter (\<lambda>i. i \<noteq> finalStartMarkerId \<and> i \<noteq> finalEndMarkerId)
                  [if isKeepFirst then endMarkerId keepSp else endMarkerId removeSp,
                   if isKeepFirst then startMarkerId removeSp else startMarkerId keepSp];
              glossParts = filter truthy [gloss keepSp, gloss removeSp];
              combinedGloss = join '' + '' glossParts
          in (True,
              st\<lparr> markers := filter (\<lambda>m. m_id m \<notin> set removeMarkerIds) (markers st),
                   spans :=
                     map (\<lambda>sp. if sp_id sp = keepSpanId
                                then sp\<lparr> startMarkerId := finalStartMarkerId,
                                         endMarkerId := finalEndMarkerId,
                                         gloss := combinedGloss \<rparr>
                                else sp)
                       (filter (\<lambda>sp. sp_id sp \<noteq> removeSpanId) (spans st)),
                   selectedSpanId := Some keepSpanId,
                   selectedMarkerId := None \<rparr>)))))))"

text \<open>
  \<open>clearOverlappingSpans\<close> walks the spans once and collects three things: the identifiers
  of the spans to delete, the identifiers of the markers to delete, and the new times of the
  markers to move. The time table is a JavaScript \<open>Map\<close>, where a later \<open>set\<close> of a
  key replaces the earlier one: here a new entry goes in front of the association list and
  \<open>map_of\<close> reads the first entry for a key.
\<close>

type_synonym clear_acc = "string list \<times> string list \<times> (string \<times> int) list"

fun clear_step ::
  "Marker list \<Rightarrow> int \<Rightarrow> int \<Rightarrow> string \<Rightarrow> string \<Rightarrow> clear_acc \<Rightarrow> AnnotationSpan \<Rightarrow> clear_acc" where
  "clear_step ms startMs endMs tierId videoId (removeSpanIds, removeMarkerIds, markerTimeUpdates) span =
     (if sp_tierId span \<noteq> tierId \<or> sp_videoId span \<noteq> videoId
      then (removeSpanIds, removeMarkerIds, markerTimeUpdates)
      else (case find_marker ms (startMarkerId span) of
        None \<Rightarrow> (removeSpanIds, removeMarkerIds, markerTimeUpdates)
      | Some sM \<Rightarrow>
          (case find_marker ms (endMarkerId span) of
             None \<Rightarrow> (removeSpanIds, removeMarkerIds, markerTimeUpdates)
           | Some eM \<Rightarrow>
               (let sTime = min (m_time sM) (m_time eM);
                    eTime = max (m_time sM) (m_time eM)
                in if sTime \<ge> endMs \<or> eTime \<le> startMs
                   then (removeSpanIds, removeMarkerIds, markerTimeUpdates)
                   else if sTime \<ge> startMs \<and> eTime \<le> endMs
                   then (sp_id span # removeSpanIds,
                         endMarkerId span # startMarkerId span # removeMarkerIds,
                         markerTimeUpdates)
                   else if sTime < startMs \<and> eTime > endMs
                   then (removeSpanIds, removeMarkerIds,
                         ((if m_time sM \<le> m_time eM then endMarkerId span
                           else startMarkerId span), startMs) # markerTimeUpdates)
                   else if sTime < startMs
                   then (removeSpanIds, removeMarkerIds,
                         ((if m_time sM \<le> m_time eM then endMarkerId span
                           else startMarkerId span), startMs) # markerTimeUpdates)
                   else (removeSpanIds, removeMarkerIds,
                         ((if m_time sM \<le> m_time eM then startMarkerId span
                           else endMarkerId span), endMs) # markerTimeUpdates)))))"

definition clearOverlappingSpans ::
  "int \<Rightarrow> int \<Rightarrow> string \<Rightarrow> string \<Rightarrow> AnnotationState \<Rightarrow> AnnotationState" where
  "clearOverlappingSpans startMs endMs tierId videoId st =
     (case foldl (clear_step (markers st) startMs endMs tierId videoId) ([], [], []) (spans st) of
        (removeSpanIds, removeMarkerIds, markerTimeUpdates) \<Rightarrow>
          if removeSpanIds = [] \<and> markerTimeUpdates = [] then st
          else st\<lparr> markers :=
                      map (\<lambda>m. case map_of markerTimeUpdates (m_id m) of
                                  Some t \<Rightarrow> m\<lparr> m_time := t \<rparr>
                                | None \<Rightarrow> m)
                        (filter (\<lambda>m. m_id m \<notin> set removeMarkerIds) (markers st)),
                    spans := filter (\<lambda>sp. sp_id sp \<notin> set removeSpanIds) (spans st) \<rparr>)"

section \<open>Export services\<close>

text \<open>
  Strings are lists of bytes; the byte order mark is its three UTF-8 bytes. Marker times are
  integers, so \<open>Math.round\<close> leaves them as they are.
\<close>

datatype category = boundary | phase | feature | custom

record MarkerType =
  mt_id :: string
  mt_key :: string
  mt_name :: string
  mt_color :: string
  mt_category :: category
  mt_description :: "string option"

record Tier =
  t_id :: string
  t_name :: string
  t_markerTypes :: "string list"
  t_visible :: bool
  t_locked :: bool
  t_color :: string

definition dquote :: char where "dquote = CHR 0x22"
definition backslash :: char where "backslash = CHR 0x5C"
definition newline :: char where "newline = CHR 0x0A"

text \<open>
  \<open>String(n)\<close> for an integer: its decimal digits, with a minus sign below zero. This is
  what JavaScript prints for integers below 1e21 in size; from there on it switches to
  exponent notation, which \<open>show_int\<close> does not follow.
\<close>

fun show_nat :: "nat \<Rightarrow> string" where
  "show_nat n = (if n < 10 then [''0123456789'' ! n]
                 else show_nat (n div 10) @ [''0123456789'' ! (n mod 10)])"

definition show_int :: "int \<Rightarrow> string" where
  "show_int i = (if i < 0 then ''-'' @ show_nat (nat (- i)) else show_nat (nat i))"

text \<open>
  \<open>(t / 1000).toFixed(3)\<close> for an integer number of milliseconds, of a size at which the
  quotient is held to within half a thousandth.
\<close>

definition toFixed3 :: "int \<Rightarrow> string" where
  "toFixed3 t =
     (let a = nat \<bar>t\<bar>; frac = show_nat (a mod 1000)
      in (if t < 0 then ''-'' else []) @ show_nat (a div 1000) @ ''.''
         @ replicate (3 - length frac) (CHR ''0'') @ frac)"

text \<open>
  \<open>new Map(entries).get(k)\<close>: a later entry for a key replaces an earlier one.
\<close>

definition map_get :: "('k \<times> 'v) list \<Rightarrow> 'k \<Rightarrow> 'v option" where
  "map_get entries k = map_of (rev entries) k"

definition csvEscape :: "string \<Rightarrow> string" where
  "csvEscape v =
     (if dquote \<in> set v \<or> CHR '','' \<in> set v \<or> newline \<in> set v
      then [dquote] @ concat (map (\<lambda>c. if c = dquote then [dquote, dquote] else [c]) v) @ [dquote]
      else [dquote] @ v @ [dquote])"

definition exportMarkersCsv ::
  "Marker list \<Rightarrow> Tier list \<Rightarrow> MarkerType list \<Rightarrow> string \<Rightarrow> string option
   \<Rightarrow> AnnotationSpan list option \<Rightarrow> string" where
  "exportMarkersCsv ms tiers markerTypes videoName annotatorId spans_opt =
     (let confirmed = sort_key m_time (filter m_confirmed ms);
          tierMap = map_get (map (\<lambda>t. (t_id t, t_name t)) tiers);
          typeMap = map_get (map (\<lambda>mt. (mt_id mt, mt_name mt)) markerTypes);
          markerMap = map_get (map (\<lambda>m. (m_id m, m)) ms);
          header = join '','' [''Video'', ''Time (ms)'', ''Time (s)'', ''Tier'', ''Marker Type'', ''Annotator''];
          markerRows =
            map (\<lambda>m. join '',''
                   [csvEscape videoName,
                    show_int (m_time m),
                    toFixed3 (m_time m),
                    csvEscape (case tierMap (m_tierId m) of Some n \<Rightarrow> n | None \<Rightarrow> []),
                    csvEscape (case typeMap (m_typeId m) of Some n \<Rightarrow> n | None \<Rightarrow> []),
                    csvEscape (case annotatorId of Some a \<Rightarrow> a | None \<Rightarrow> [])])
              confirmed;
          validSpans =
            (case spans_opt of
               None \<Rightarrow> []
             | Some sps \<Rightarrow>
                 filter (\<lambda>s. markerMap (startMarkerId s) \<noteq> None \<and> markerMap (endMarkerId s) \<noteq> None) sps);
          spanRows =
            (if validSpans = [] then []
             else [[], join '','' [''Video'', ''Start Time (ms)'', ''End Time (ms)'', ''Duration (ms)'', ''Tier'', ''Gloss'']]
                  @ map (\<lambda>s.
                      (let startTime = (case markerMap (startMarkerId s) of Some m \<Rightarrow> m_time m | None \<Rightarrow> 0);
                           endTime = (case markerMap (endMarkerId s) of Some m \<Rightarrow> m_time m | None \<Rightarrow> 0)
                       in join '',''
                            [csvEscape videoName,
                             show_int startTime,
                             show_int endTime,
                             show_int (endTime - startTime),
                             csvEscape (case tierMap (sp_tierId s) of Some n \<Rightarrow> n | None \<Rightarrow> []),
                             csvEscape (gloss s)]))
                      validSpans)
      in [CHR 0xEF, CHR 0xBB, CHR 0xBF] @ join [newline] ([header] @ markerRows @ spanRows))"

text \<open>
  \<open>JSON.stringify(value, null, 2)\<close> on the shapes the exporter builds: strings, integers,
  and objects and arrays whose members are already rendered at the deeper indentation.
\<close>

definition json_escape :: "char \<Rightarrow> string" where
  "json_escape c =
     (if c = dquote then [backslash, dquote]
      else if c = backslash then [backslash, backslash]
      else if c = CHR 0x08 then [backslash, CHR ''b'']
      else if c = CHR 0x0C then [backslash, CHR ''f'']
      else if c = CHR 0x0A then [backslash, CHR ''n'']
      else if c = CHR 0x0D then [backslash, CHR ''r'']
      else if c = CHR 0x09 then [backslash, CHR ''t'']
      else if (of_char c :: nat) < 32
      then [backslash, CHR ''u'', CHR ''0'', CHR ''0'',
            ''0123456789abcdef'' ! ((of_char c :: nat) div 16),
            ''0123456789abcdef'' ! ((of_char c :: nat) mod 16)]
      else [c])"

definition json_string :: "string \<Rightarrow> string" where
  "json_string s = [dquote] @ concat (map json_escape s) @ [dquote]"

definition json_object :: "string \<Rightarrow> (string \<times> string) list \<Rightarrow> string" where
  "json_object indent members =
     (if members = [] then ''{}''
      else ''{'' @ [newline]
           @ join ('','' @ [newline])
               (map (\<lambda>(k, v). indent @ ''  '' @ json_string k @ '': '' @ v) members)
           @ [newline] @ indent @ ''}'')"

definition json_array :: "string \<Rightarrow> string list \<Rightarrow> string" where
  "json_array indent elements =
     (if elements = [] then ''[]''
      else ''['' @ [newline]
           @ join ('','' @ [newline]) (map (\<lambda>v. indent @ ''  '' @ v) elements)
           @ [newline] @ indent @ '']'')"

text \<open>
  \<open>exportAnnotationsJson\<close>. Its one input besides the arguments is the clock:
  \<open>now\<close> is the string that \<open>new Date().toISOString()\<close> returns at the call. The
  members of the exported object after \<open>video\<close> and \<open>exportedAt\<close> are
  \<open>json_members\<close>. Of the two call forms, positional and with one options object, this
  is the positional one; the other unpacks the same seven values.
\<close>

definition json_members ::
  "Marker list \<Rightarrow> AnnotationSpan list \<Rightarrow> Tier list \<Rightarrow> MarkerType list
   \<Rightarrow> string option \<Rightarrow> string option \<Rightarrow> (string \<times> string) list" where
  "json_members ms sps tiers markerTypes annotator version =
     (let tierMap = map_get (map (\<lambda>t. (t_id t, t_name t)) tiers);
          typeMap = map_get (map (\<lambda>mt. (mt_id mt, mt_name mt)) markerTypes);
          markerMap = map_get (map (\<lambda>m. (m_id m, m)) ms);
          validSpans =
            filter (\<lambda>s. markerMap (startMarkerId s) \<noteq> None \<and> markerMap (endMarkerId s) \<noteq> None) sps
      in (case annotator of
                 None \<Rightarrow> []
               | Some a \<Rightarrow> if truthy a then [(''annotator'', json_string a)] else [])
            @ (case version of
                 None \<Rightarrow> []
               | Some v \<Rightarrow> if truthy v then [(''version'', json_string v)] else [])
            @ [(''tiers'',
                json_array ''  ''
                  (map (\<lambda>t. json_object ''    ''
                          [(''id'', json_string (t_id t)), (''name'', json_string (t_name t))])
                     tiers)),
               (''markerTypes'',
                json_array ''  ''
                  (map (\<lambda>mt. json_object ''    ''
                          [(''id'', json_string (mt_id mt)), (''name'', json_string (mt_name mt)),
                           (''key'', json_string (mt_key mt))])
                     markerTypes)),
               (''markers'',
                json_array ''  ''
                  (map (\<lambda>m. json_object ''    ''
                          [(''id'', json_string (m_id m)),
                           (''time'', show_int (m_time m)),
                           (''type'', json_string (case typeMap (m_typeId m) of Some n \<Rightarrow> n | None \<Rightarrow> [])),
                           (''tier'', json_string (case tierMap (m_tierId m) of Some n \<Rightarrow> n | None \<Rightarrow> []))])
                     (sort_key m_time (filter m_confirmed ms)))),
               (''spans'',
                json_array ''  ''
                  (map (\<lambda>s. json_object ''    ''
                          [(''start'', show_int (case markerMap (startMarkerId s) of Some m \<Rightarrow> m_time m | None \<Rightarrow> 0)),
                           (''end'', show_int (case markerMap (endMarkerId s) of Some m \<Rightarrow> m_time m | None \<Rightarrow> 0)),
                           (''gloss'', json_string (gloss s)),
                           (''tier'', json_string (case tierMap (sp_tierId s) of Some n \<Rightarrow> n | None \<Rightarrow> []))])
                     validSpans))])"

definition exportAnnotationsJson ::
  "string \<Rightarrow> Marker list \<Rightarrow> AnnotationSpan list \<Rightarrow> Tier list \<Rightarrow> MarkerType list \<Rightarrow> string
   \<Rightarrow> string option \<Rightarrow> string option \<Rightarrow> string" where
  "exportAnnotationsJson now ms sps tiers markerTypes videoName annotator version =
     json_object []
       ([(''video'', json_string videoName),
         (''exportedAt'', json_string now)]
        @ json_members ms sps tiers markerTypes annotator version)"

text \<open>
  An exporter is invoked at some moment; \<open>now\<close> is what the clock reads then. The CSV
  exporter never looks at it.
\<close>

datatype export_call =
    CsvExport "Marker list" "Tier list" "MarkerType list" string "string option"
      "AnnotationSpan list option"
  | JsonExport "Marker list" "AnnotationSpan list" "Tier list" "MarkerType list" string
      "string option" "string option"

fun invoke :: "string \<Rightarrow> export_call \<Rightarrow> string" where
  "invoke now (CsvExport ms tiers markerTypes videoName annotatorId sps) =
     exportMarkersCsv ms tiers markerTypes videoName annotatorId sps"
| "invoke now (JsonExport ms sps tiers markerTypes videoName annotator version) =
     exportAnnotationsJson now ms sps tiers markerTypes videoName annotator version"

text \<open>
  Reading one escaped character back off the front of a string, the inverse of
  \<open>json_escape\<close>.
\<close>

definition hexval :: "char \<Rightarrow> nat" where
  "hexval h = length (takeWhile (\<lambda>x. x \<noteq> h) ''0123456789abcdef'')"

definition json_decode_first :: "string \<Rightarrow> (char \<times> string) option" where
  "json_decode_first s =
     (case s of
        [] \<Rightarrow> None
      | a # rest \<Rightarrow>
          if a \<noteq> backslash then Some (a, rest)
          else (case rest of
                  [] \<Rightarrow> None
                | b # r \<Rightarrow>
                    if b = dquote then Some (dquote, r)
                    else if b = backslash then Some (backslash, r)
                    else if b = CHR ''b'' then Some (CHR 0x08, r)
                    else if b = CHR ''f'' then Some (CHR 0x0C, r)
                    else if b = CHR ''n'' then Some (CHR 0x0A, r)
                    else if b = CHR ''r'' then Some (CHR 0x0D, r)
                    else if b = CHR ''t'' then Some (CHR 0x09, r)
                    else (case r of
                            z1 # z2 # h1 # h2 # r' \<Rightarrow>
                              Some (char_of (16 * hexval h1 + hexval h2), r')
                          | _ \<Rightarrow> None)))"

section \<open>Notions used by the specification\<close>

text \<open>
  The half-open intervals \<open>[a, b)\<close> and \<open>[c, d)\<close> have a point in common exactly when
  the larger of the two starts lies below the smaller of the two ends.
\<close>

definition ivl_meet :: "int \<times> int \<Rightarrow> int \<times> int \<Rightarrow> bool" where
  "ivl_meet I J = (max (fst I) (fst J) < min (snd I) (snd J))"

definition same_track :: "AnnotationSpan \<Rightarrow> AnnotationSpan \<Rightarrow> bool" where
  "same_track A B = (sp_tierId A = sp_tierId B \<and> sp_videoId A = sp_videoId B)"

text \<open>A marker lies strictly inside a span of its own tier and video.\<close>

definition strictly_inside :: "Marker list \<Rightarrow> Marker \<Rightarrow> AnnotationSpan \<Rightarrow> bool" where
  "strictly_inside ms m sp =
     (sp_tierId sp = m_tierId m \<and> sp_videoId sp = m_videoId m \<and>
      (case span_interval ms sp of
         None \<Rightarrow> False
       | Some (a, b) \<Rightarrow> a < m_time m \<and> m_time m < b))"

text \<open>
  The ways a merge request can be invalid: an identifier that resolves to no span, two spans
  on different tiers or videos, a missing anchor marker, or a third span of the same tier
  and video whose interval meets the merged interval \<open>[min starts, max ends)\<close>.
\<close>

definition merge_invalid :: "AnnotationState \<Rightarrow> string \<Rightarrow> string \<Rightarrow> bool" where
  "merge_invalid st keepId removeId =
     (case (find_span (spans st) keepId, find_span (spans st) removeId) of
        (Some A, Some B) \<Rightarrow>
          \<not> same_track A B \<or>
          (case (span_interval (markers st) A, span_interval (markers st) B) of
             (Some (a, b), Some (c, d)) \<Rightarrow>
               (\<exists>T\<in>set (spans st). sp_id T \<noteq> keepId \<and> sp_id T \<noteq> removeId \<and> same_track T A \<and>
                  (case span_interval (markers st) T of
                     None \<Rightarrow> False
                   | Some J \<Rightarrow> ivl_meet (min a c, max b d) J))
           | _ \<Rightarrow> True)
      | _ \<Rightarrow> True)"

text \<open>A span is dangling when one of its anchors resolves to no marker.\<close>

definition dangling :: "AnnotationState \<Rightarrow> AnnotationSpan \<Rightarrow> bool" where
  "dangling st sp =
     (find_marker (markers st) (startMarkerId sp) = None \<or>
      find_marker (markers st) (endMarkerId sp) = None)"

section \<open>Sequences of operations\<close>

text \<open>
  Sequences of span operations. No two spans of one tier and video, told apart by their
  identifiers, have half-open intervals that meet (\<open>no_overlap\<close>; a span with a
  missing anchor has no interval); span identifiers are unique (\<open>unique_span_ids\<close>). A sequence
  is \<open>guarded\<close> when every \<open>addSpan\<close> receives an identifier that is not in the store
  yet, as a fresh UUID is, and every \<open>clearOverlappingSpans\<close> runs in a store where no
  marker anchors two span ends (\<open>anchors_unshared\<close>).
\<close>

datatype span_op =
    AddSpan string AnnotationSpan
  | MergeSpans string string
  | ClearOverlappingSpans int int string string

fun apply_span_op :: "span_op \<Rightarrow> AnnotationState \<Rightarrow> AnnotationState" where
  "apply_span_op (AddSpan uuid span) st = addSpan uuid span st"
| "apply_span_op (MergeSpans keepSpanId removeSpanId) st = snd (mergeSpans keepSpanId removeSpanId st)"
| "apply_span_op (ClearOverlappingSpans startMs endMs tierId videoId) st =
     clearOverlappingSpans startMs endMs tierId videoId st"

fun run_span_ops :: "span_op list \<Rightarrow> AnnotationState \<Rightarrow> AnnotationState" where
  "run_span_ops [] st = st"
| "run_span_ops (op # ops) st = run_span_ops ops (apply_span_op op st)"

definition no_overlap :: "AnnotationState \<Rightarrow> bool" where
  "no_overlap st =
     (\<forall>A\<in>set (spans st). \<forall>B\<in>set (spans st).
        sp_id A \<noteq> sp_id B \<and> same_track A B \<longrightarrow>
        (case (span_interval (markers st) A, span_interval (markers st) B) of
           (Some I, Some J) \<Rightarrow> \<not> ivl_meet I J
         | _ \<Rightarrow> True))"

definition unique_span_ids :: "AnnotationState \<Rightarrow> bool" where
  "unique_span_ids st = distinct (map sp_id (spans st))"

definition anchors_unshared :: "AnnotationState \<Rightarrow> bool" where
  "anchors_unshared st =
     distinct (concat (map (\<lambda>sp. [startMarkerId sp, endMarkerId sp]) (spans st)))"

fun op_guard :: "span_op \<Rightarrow> AnnotationState \<Rightarrow> bool" where
  "op_guard (AddSpan uuid span) st = (generateId ''sp'' uuid \<notin> set (map sp_id (spans st)))"
| "op_guard (MergeSpans keepSpanId removeSpanId) st = True"
| "op_guard (ClearOverlappingSpans startMs endMs tierId videoId) st = anchors_unshared st"

fun guarded :: "span_op list \<Rightarrow> AnnotationState \<Rightarrow> bool" where
  "guarded [] st = True"
| "guarded (op # ops) st = (op_guard op st \<and> guarded ops (apply_span_op op st))"

text \<open>
  The entry that one pass of the loop body of \<open>clearOverlappingSpans\<close> adds to the time
  table for a span, if it adds one.
\<close>

definition trim_of ::
  "Marker list \<Rightarrow> int \<Rightarrow> int \<Rightarrow> string \<Rightarrow> string \<Rightarrow> AnnotationSpan \<Rightarrow> (string \<times> int) option" where
  "trim_of ms startMs endMs tierId videoId span =
     (case clear_step ms startMs endMs tierId videoId ([], [], []) span of
        (removeSpanIds, removeMarkerIds, markerTimeUpdates) \<Rightarrow>
          (case markerTimeUpdates of [] \<Rightarrow> None | p # ps \<Rightarrow> Some p))"

text \<open>
  Sequences of marker operations. A sequence \<open>places_when_idle\<close> when every
  \<open>placeMarker\<close> runs in a store with no pending marker, as the Enter and Space keys
  arrange by cancelling the pending marker first. \<open>single_pending\<close>: at most one marker
  is unconfirmed, and it is the pending one.
\<close>

datatype marker_op =
    PlaceMarker string int string string
  | ConfirmMarker string string
  | CancelPendingMarker

fun apply_marker_op :: "marker_op \<Rightarrow> AnnotationState \<Rightarrow> AnnotationState" where
  "apply_marker_op (PlaceMarker uuid t tier video) st = snd (placeMarker uuid t tier video st)"
| "apply_marker_op (ConfirmMarker i ty) st = confirmMarker i ty st"
| "apply_marker_op CancelPendingMarker st = cancelPendingMarker st"

fun run_marker_ops :: "marker_op list \<Rightarrow> AnnotationState \<Rightarrow> AnnotationState" where
  "run_marker_ops [] st = st"
| "run_marker_ops (op # ops) st = run_marker_ops ops (apply_marker_op op st)"

definition unconfirmed :: "AnnotationState \<Rightarrow> Marker list" where
  "unconfirmed st = filter (\<lambda>m. \<not> m_confirmed m) (markers st)"

fun places_when_idle :: "marker_op list \<Rightarrow> AnnotationState \<Rightarrow> bool" where
  "places_when_idle [] st = True"
| "places_when_idle (op # ops) st =
     ((case op of PlaceMarker uuid t tier video \<Rightarrow> pendingMarkerId st = None | _ \<Rightarrow> True)
      \<and> places_when_idle ops (apply_marker_op op st))"

definition single_pending :: "AnnotationState \<Rightarrow> bool" where
  "single_pending st =
     (length (unconfirmed st) \<le> 1 \<and>
      list_all (\<lambda>m. pendingMarkerId st = Some (m_id m)) (unconfirmed st))"

section \<open>Example stores\<close>

definition marker_at :: "string \<Rightarrow> int \<Rightarrow> Marker" where
  "marker_at i t = \<lparr> m_id = i, m_time = t, m_typeId = ''sign-start'', m_tierId = ''tier1'',
     m_videoId = ''video1'', m_confirmed = True, m_value = None \<rparr>"

definition span_between :: "string \<Rightarrow> string \<Rightarrow> string \<Rightarrow> string \<Rightarrow> AnnotationSpan" where
  "span_between i s e g = \<lparr> sp_id = i, startMarkerId = s, endMarkerId = e,
     sp_tierId = ''tier1'', sp_videoId = ''video1'', gloss = g \<rparr>"

definition store_of :: "Marker list \<Rightarrow> AnnotationSpan list \<Rightarrow> AnnotationState" where
  "store_of ms sps = initial_state\<lparr> markers := ms, spans := sps \<rparr>"

text \<open>
  Two spans written against the direction of time: A runs from marker m1 (1000 ms) back to
  m0 (0 ms), B from m1 to m2 (2000 ms). Their intervals are [0, 1000] and [1000, 2000].
\<close>

definition reversed_store :: AnnotationState where
  "reversed_store = store_of
     [marker_at ''m0'' 0, marker_at ''m1'' 1000, marker_at ''m2'' 2000]
     [span_between ''A'' ''m1'' ''m0'' ''HELLO'', span_between ''B'' ''m1'' ''m2'' ''WORLD'']"

text \<open>
  Two adjacent spans A = [0, 1000] and B = [1000, 2000] that share the boundary marker m1,
  as creating a span from a marker to the next marker of its tier produces them, and two
  free markers at 500 ms and 800 ms.
\<close>

definition adjacent_store :: AnnotationState where
  "adjacent_store = store_of
     [marker_at ''m0'' 0, marker_at ''m1'' 1000, marker_at ''m2'' 2000,
      marker_at ''x'' 500, marker_at ''y'' 800]
     [span_between ''A'' ''m0'' ''m1'' ''HELLO'', span_between ''B'' ''m1'' ''m2'' ''WORLD'']"

text \<open>
  Spans A = [0, 1000] and B = [1500, 2500] and a third span C = [2000, 3000]: merging A
  and B would reach 2500, into C.
\<close>

definition crowded_store :: AnnotationState where
  "crowded_store = store_of
     [marker_at ''m0'' 0, marker_at ''m1'' 1000, marker_at ''m2'' 1500,
      marker_at ''m3'' 2500, marker_at ''m4'' 2000, marker_at ''m5'' 3000]
     [span_between ''A'' ''m0'' ''m1'' ''HELLO'', span_between ''B'' ''m2'' ''m3'' ''WORLD'',
      span_between ''C'' ''m4'' ''m5'' ''THIRD'']"

text \<open>
  The store after drawing a span on an empty tier, as the timeline does it: two calls of
  \<open>placeMarker\<close>, then \<open>addSpan\<close> between the two new markers. The second marker is
  still the pending one.
\<close>

definition drawn_store :: AnnotationState where
  "drawn_store =
     (let (startId, st1) = placeMarker ''u1'' 500 ''tier1'' ''video1'' initial_state;
          (endId, st2) = placeMarker ''u2'' 1500 ''tier1'' ''video1'' st1
      in addSpan ''u3''
           \<lparr> sp_id = [], startMarkerId = startId, endMarkerId = endId,
              sp_tierId = ''tier1'', sp_videoId = ''video1'', gloss = [] \<rparr> st2)"

text \<open>A span A = [0, 1000] and an unconfirmed, pending marker p at 500 ms on the same tier.\<close>

definition pending_inside_store :: AnnotationState where
  "pending_inside_store =
     (store_of
        [marker_at ''m0'' 0, marker_at ''m1'' 1000,
         (marker_at ''p'' 500)\<lparr> m_typeId := [], m_confirmed := False \<rparr>]
        [span_between ''A'' ''m0'' ''m1'' ''HELLO''])\<lparr> pendingMarkerId := Some ''p'' \<rparr>"

text \<open>
  The adjacent spans after room has been made for a new span over [500, 800).
\<close>

definition cleared_store :: AnnotationState where
  "cleared_store = clearOverlappingSpans 500 800 ''tier1'' ''video1'' adjacent_store"

text \<open>
  Four markers on one tier, two of them at the same time, and no span; three spans are added
  between them, the second of length zero, and room is then cleared over [500, 800).
\<close>

definition degenerate_store :: AnnotationState where
  "degenerate_store = store_of
     [marker_at ''o'' 0, marker_at ''p'' 1000, marker_at ''q'' 1000, marker_at ''r'' 2000] []"

definition degenerate_ops :: "span_op list" where
  "degenerate_ops =
     [AddSpan ''1'' (span_between [] ''o'' ''p'' []),
      AddSpan ''2'' (span_between [] ''p'' ''q'' []),
      AddSpan ''3'' (span_between [] ''p'' ''r'' []),
      ClearOverlappingSpans 500 800 ''tier1'' ''video1'']"

text \<open>
  One tier and one marker type for the markers and spans of \<open>adjacent_store\<close>, and two
  clock readings one second apart.
\<close>

definition gloss_tier :: Tier where
  "gloss_tier = \<lparr> t_id = ''tier1'', t_name = ''Gloss'', t_markerTypes = [''sign-start''],
     t_visible = True, t_locked = False, t_color = ''#22c55e'' \<rparr>"

definition sign_start_type :: MarkerType where
  "sign_start_type = \<lparr> mt_id = ''sign-start'', mt_key = ''s'', mt_name = ''Sign Start'',
     mt_color = ''#22c55e'', mt_category = boundary, mt_description = None \<rparr>"

definition adjacent_csv :: export_call where
  "adjacent_csv = CsvExport (markers adjacent_store) [gloss_tier] [sign_start_type]
     ''clip.mp4'' (Some ''ed'') (Some (spans adjacent_store))"

definition adjacent_json :: export_call where
  "adjacent_json = JsonExport (markers adjacent_store) (spans adjacent_store) [gloss_tier]
     [sign_start_type] ''clip.mp4'' (Some ''ed'') None"

definition noon :: string where
  "noon = ''2026-01-01T12:00:00.000Z''"

definition second_after_noon :: string where
  "second_after_noon = ''2026-01-01T12:00:01.000Z''"

text \<open>Placing, cancelling, placing, confirming and placing again.\<close>

definition idle_ops :: "marker_op list" where
  "idle_ops =
     [PlaceMarker ''u1'' 500 ''tier1'' ''video1'', CancelPendingMarker,
      PlaceMarker ''u2'' 1500 ''tier1'' ''video1'', ConfirmMarker ''m_u2'' ''sign-start'',
      PlaceMarker ''u3'' 2500 ''tier1'' ''video1'']"

section \<open>Auxiliary facts\<close>

lemmas example_defs = marker_at_def span_between_def store_of_def initial_state_def

lemma ivl_meet_set: "ivl_meet (a, b) (c, d) \<longleftrightarrow> {a..<b} \<inter> {c..<d} \<noteq> {}"
  unfolding ivl_meet_def by (auto simp: Int_atLeastLessThan)

lemma ivl_meet_overlaps: "ivl_meet I J \<Longrightarrow> overlaps I J"
  unfolding ivl_meet_def overlaps_def by auto

lemma overlaps_positive_length:
  "a < b \<Longrightarrow> c < d \<Longrightarrow> overlaps (a, b) (c, d) = ivl_meet (a, b) (c, d)"
  unfolding ivl_meet_def overlaps_def by auto

lemma overlaps_closed:
  assumes "a \<le> b" "c \<le> d" "overlaps (a, b) (c, d)"
  shows "{a..b} \<inter> {c..d} \<noteq> {}"
proof -
  from assms have "max a c \<in> {a..b} \<inter> {c..d}" unfolding overlaps_def by auto
  then show ?thesis by blast
qed

lemma list_ex_False: "(\<And>x. x \<in> set xs \<Longrightarrow> \<not> P x) \<Longrightarrow> \<not> list_ex P xs"
  by (simp add: list_ex_iff)

lemma snap_search_Cons:
  "snap_search ms m (sp # rest) =
     (if strictly_inside ms m sp then Some (endMarkerId sp) else snap_search ms m rest)"
  by (simp add: strictly_inside_def span_interval_def Let_def split: option.splits)

lemma snap_search_find:
  "snap_search ms m sps = map_option endMarkerId (find (strictly_inside ms m) sps)"
  by (induction sps) (simp_all add: snap_search_Cons del: snap_search.simps(2))

lemma find_unique:
  assumes "sp \<in> set sps" "P sp" "\<forall>sp'\<in>set sps. P sp' \<longrightarrow> sp' = sp"
  shows "find P sps = Some sp"
  using assms
proof (induction sps)
  case Nil
  from Nil.prems(1) show ?case by simp
next
  case (Cons a sps)
  show ?case
  proof (cases "P a")
    case True
    have "a = sp" using Cons.prems(3) True by (meson list.set_intros(1))
    with True show ?thesis by simp
  next
    case False
    have "sp \<noteq> a" using False Cons.prems(2) by blast
    then have mem: "sp \<in> set sps" using Cons.prems(1) by (metis set_ConsD)
    have "\<forall>sp'\<in>set sps. P sp' \<longrightarrow> sp' = sp" using Cons.prems(3) by (meson list.set_intros(2))
    from Cons.IH[OF mem Cons.prems(2) this] False show ?thesis by simp
  qed
qed

lemma find_none: "(\<forall>x\<in>set xs. \<not> P x) \<Longrightarrow> find P xs = None"
  by (induction xs) auto

lemma find_marker_map:
  assumes "\<And>x. m_id (f x) = m_id x"
  shows "find_marker (map f ms) i = map_option f (find_marker ms i)"
  using assms by (induction ms) (auto simp: find_marker_def)

lemma find_marker_filter:
  "find_marker (filter (\<lambda>m. m_id m \<notin> R) ms) i = (if i \<in> R then None else find_marker ms i)"
  by (induction ms) (auto simp: find_marker_def)

lemma find_marker_id: "find_marker ms i = Some m \<Longrightarrow> m_id m = i"
  unfolding find_marker_def by (induction ms) (auto split: if_splits)

lemma inside_not_end:
  assumes "strictly_inside ms m sp" "find_marker ms i = Some m"
  shows "endMarkerId sp \<noteq> i"
  using assms by (auto simp: strictly_inside_def span_interval_def split: option.splits)


lemma list_all2_map_self: "(\<And>x. x \<in> set xs \<Longrightarrow> P x (f x)) \<Longrightarrow> list_all2 P xs (map f xs)"
  by (induction xs) auto

lemma confirm_markers:
  assumes m: "find_marker (markers st) i = Some m"
  shows "markers (confirmMarker i ty st) =
     map (\<lambda>x. if m_id x = i then x\<lparr> m_typeId := ty, m_confirmed := True \<rparr>
                 else if (case snap_search (markers st) m (spans st) of
                            None \<Rightarrow> False | Some e \<Rightarrow> truthy e \<and> m_id x = e)
                 then x\<lparr> m_time := m_time m \<rparr> else x) (markers st)"
  using m by (simp add: confirmMarker_def Let_def)

lemma confirm_found:
  assumes m: "find_marker (markers st) i = Some m"
  shows "find_marker (markers (confirmMarker i ty st)) i = Some (m\<lparr> m_typeId := ty, m_confirmed := True \<rparr>)"
proof -
  have "find_marker (map (\<lambda>x. if m_id x = i then x\<lparr> m_typeId := ty, m_confirmed := True \<rparr>
                 else if (case snap_search (markers st) m (spans st) of
                            None \<Rightarrow> False | Some e \<Rightarrow> truthy e \<and> m_id x = e)
                 then x\<lparr> m_time := m_time m \<rparr> else x) (markers st)) i
     = map_option (\<lambda>x. if m_id x = i then x\<lparr> m_typeId := ty, m_confirmed := True \<rparr>
                 else if (case snap_search (markers st) m (spans st) of
                            None \<Rightarrow> False | Some e \<Rightarrow> truthy e \<and> m_id x = e)
                 then x\<lparr> m_time := m_time m \<rparr> else x) (find_marker (markers st) i)"
    by (rule find_marker_map) simp
  then show ?thesis
    unfolding confirm_markers[OF m] using m find_marker_id[OF m] by simp
qed

lemma confirm_snapped_first:
  assumes m: "find_marker (markers st) i = Some m"
    and first: "find (strictly_inside (markers st) m) (spans st) = Some sp"
    and ne: "endMarkerId sp \<noteq> []"
  shows "list_all2 (\<lambda>x y. m_id y = m_id x \<and>
                      m_time y = (if m_id x = endMarkerId sp then m_time m else m_time x))
           (markers st) (markers (confirmMarker i ty st))"
proof -
  from first have snap: "snap_search (markers st) m (spans st) = Some (endMarkerId sp)"
    by (simp add: snap_search_find)
  from first have "strictly_inside (markers st) m sp"
    by (auto simp: find_Some_iff)
  then have "endMarkerId sp \<noteq> i" by (rule inside_not_end[OF _ m])
  then show ?thesis
    unfolding confirm_markers[OF m] snap
    by (intro list_all2_map_self) (use ne in \<open>simp add: truthy_def\<close>)
qed

lemma confirm_snapped:
  assumes m: "find_marker (markers st) i = Some m"
    and sp: "sp \<in> set (spans st)" "strictly_inside (markers st) m sp" "endMarkerId sp \<noteq> []"
    and uniq: "\<forall>sp'\<in>set (spans st). strictly_inside (markers st) m sp' \<longrightarrow> sp' = sp"
  shows "list_all2 (\<lambda>x y. m_id y = m_id x \<and>
                      m_time y = (if m_id x = endMarkerId sp then m_time m else m_time x))
           (markers st) (markers (confirmMarker i ty st))"
  by (rule confirm_snapped_first[OF m find_unique[OF sp(1) sp(2) uniq] sp(3)])

lemma confirm_unsnapped:
  assumes m: "find_marker (markers st) i = Some m"
    and none: "\<forall>sp\<in>set (spans st). \<not> strictly_inside (markers st) m sp"
  shows "list_all2 (\<lambda>x y. m_id y = m_id x \<and> m_time y = m_time x)
           (markers st) (markers (confirmMarker i ty st))"
proof -
  have snap: "snap_search (markers st) m (spans st) = None"
    using none by (simp add: snap_search_find find_none)
  show ?thesis
    unfolding confirm_markers[OF m] snap
    by (rule list_all2_map_self) simp
qed


section \<open>Merging spans\<close>

text \<open>
  C2. Merging two spans of one tier whose anchors exist, with no third span in the way,
  should leave the kept span anchored at the outermost pair of markers and delete the inner
  boundary markers. For spans written in the direction of time the store does so: in
  \<open>adjacent_store\<close> the spans [0, 1000] and [1000, 2000] merge into one span on
  markers m0 and m2, covering [0, 2000], with gloss HELLO + WORLD, and the inner marker m1
  is deleted. For spans written against the direction of time it does not. In
  \<open>reversed_store\<close> the spans cover the same two intervals; the merge is accepted, but
  the kept span ends up on markers m1 and m2, covering only [1000, 2000], and the
  outermost marker m0 is the one deleted while the inner boundary m1 survives.
\<close>

theorem mergeSpans_reversed_spans:
  "map (span_interval (markers adjacent_store)) (spans adjacent_store)
     = [Some (0, 1000), Some (1000, 2000)]
   \<and> fst (mergeSpans ''A'' ''B'' adjacent_store) = True
   \<and> map m_id (markers (snd (mergeSpans ''A'' ''B'' adjacent_store))) = [''m0'', ''m2'', ''x'', ''y'']
   \<and> map (span_interval (markers (snd (mergeSpans ''A'' ''B'' adjacent_store))))
        (spans (snd (mergeSpans ''A'' ''B'' adjacent_store))) = [Some (0, 2000)]
   \<and> map gloss (spans (snd (mergeSpans ''A'' ''B'' adjacent_store))) = [''HELLO + WORLD'']
   \<and> map (span_interval (markers reversed_store)) (spans reversed_store)
     = [Some (0, 1000), Some (1000, 2000)]
   \<and> fst (mergeSpans ''A'' ''B'' reversed_store) = True
   \<and> map m_id (markers (snd (mergeSpans ''A'' ''B'' reversed_store))) = [''m1'', ''m2'']
   \<and> map (span_interval (markers (snd (mergeSpans ''A'' ''B'' reversed_store))))
        (spans (snd (mergeSpans ''A'' ''B'' reversed_store))) = [Some (1000, 2000)]
   \<and> map gloss (spans (snd (mergeSpans ''A'' ''B'' reversed_store))) = [''HELLO + WORLD'']"
  by code_simp

theorem mergeSpans_reversed_spans_witness:
  "fst (mergeSpans ''A'' ''B'' reversed_store) = True
   \<and> map m_id (markers (snd (mergeSpans ''A'' ''B'' reversed_store))) = [''m1'', ''m2'']"
  using mergeSpans_reversed_spans by blast

text \<open>
  C3. \<open>mergeSpans\<close> returns false and leaves the whole store as it was whenever the
  request is invalid: an identifier resolves to no span, the two spans lie on different
  tiers or videos, one of the four anchor markers is missing, or the merged interval
  \<open>[min starts, max ends)\<close> meets a third span of the same tier and video.
\<close>

theorem mergeSpans_rejects:
  assumes "merge_invalid st keepId removeId"
  shows "mergeSpans keepId removeId st = (False, st)"
proof (cases "find_span (spans st) keepId")
  case None
  then show ?thesis by (simp add: mergeSpans_def)
next
  case (Some A)
  note A = this
  show ?thesis
  proof (cases "find_span (spans st) removeId")
    case None
    then show ?thesis using A by (simp add: mergeSpans_def)
  next
    case (Some B)
    note B = this
    show ?thesis
    proof (cases "same_track A B")
      case False
      then show ?thesis using A B by (auto simp: mergeSpans_def same_track_def)
    next
      case True
      note track = this
      show ?thesis
      proof (cases "span_interval (markers st) A")
        case None
        then show ?thesis using A B by (simp add: mergeSpans_def)
      next
        case (Some I)
        note I = this
        show ?thesis
        proof (cases "span_interval (markers st) B")
          case None
          then show ?thesis using A B I by (simp add: mergeSpans_def split: prod.splits)
        next
          case (Some J)
          obtain a b c d where ab: "I = (a, b)" and cd: "J = (c, d)" by (cases I, cases J) auto
          from assms A B track I Some ab cd
          obtain T K where T: "T \<in> set (spans st)" "sp_id T \<noteq> keepId" "sp_id T \<noteq> removeId"
              "same_track T A" "span_interval (markers st) T = Some K"
              "ivl_meet (min a c, max b d) K"
            by (auto simp: merge_invalid_def split: option.splits)
          have "list_ex (\<lambda>sp.
                if sp_id sp = keepId \<or> sp_id sp = removeId then False
                else if sp_tierId sp \<noteq> sp_tierId A \<or> sp_videoId sp \<noteq> sp_videoId A
                then False
                else case span_interval (markers st) sp of
                       None \<Rightarrow> False
                     | Some third \<Rightarrow> overlaps (min a c, max b d) third) (spans st)"
            unfolding list_ex_iff using T ivl_meet_overlaps[OF T(6)]
            by (intro bexI[of _ T]) (auto simp: same_track_def)
          then show ?thesis using A B track I Some ab cd
            by (simp add: mergeSpans_def same_track_def)
        qed
      qed
    qed
  qed
qed

text \<open>
  The example of the specification: a third span occupies [2000, 3000] and the merge of
  [0, 1000] with [1500, 2500] would reach 2500.
\<close>

theorem mergeSpans_rejects_witness:
  "merge_invalid crowded_store ''A'' ''B''
   \<and> mergeSpans ''A'' ''B'' crowded_store = (False, crowded_store)"
proof -
  have h: "merge_invalid crowded_store ''A'' ''B''"
    by code_simp
  from mergeSpans_rejects [OF h] h show ?thesis by simp
qed

text \<open>
  C10. When the same identifier is passed as the span to keep and the span to remove, and
  the span's anchors exist and no other span of its tier and video overlaps its interval,
  \<open>mergeSpans\<close> returns true and deletes the span: no span with that identifier
  remains, and the markers, both anchors included, are all retained. Overlap is the
  store's own test \<open>a < d \<and> c < b\<close>: it fails whenever the closed intervals are
  disjoint, and it agrees with half-open intersection for intervals of positive length.
\<close>

theorem mergeSpans_same_id:
  assumes k: "find_span (spans st) (sp_id k) = Some k"
    and I: "span_interval (markers st) k = Some I"
    and free: "\<forall>sp\<in>set (spans st). sp_id sp \<noteq> sp_id k \<and> same_track sp k \<longrightarrow>
                 (\<forall>J. span_interval (markers st) sp = Some J \<longrightarrow> \<not> overlaps I J)"
  shows "mergeSpans (sp_id k) (sp_id k) st =
           (True, st\<lparr> markers := markers st,
                      spans := filter (\<lambda>sp. sp_id sp \<noteq> sp_id k) (spans st),
                      selectedSpanId := Some (sp_id k),
                      selectedMarkerId := None \<rparr>)
         \<and> find_span (spans (snd (mergeSpans (sp_id k) (sp_id k) st))) (sp_id k) = None"
proof -
  obtain a b where ab: "I = (a, b)" by (cases I)
  have third: "\<not> list_ex (\<lambda>sp.
                if sp_id sp = sp_id k \<or> sp_id sp = sp_id k then False
                else if sp_tierId sp \<noteq> sp_tierId k \<or> sp_videoId sp \<noteq> sp_videoId k
                then False
                else case span_interval (markers st) sp of
                       None \<Rightarrow> False
                     | Some third \<Rightarrow> overlaps (min a a, max b b) third) (spans st)"
    using free ab by (intro list_ex_False) (auto simp: same_track_def split: option.splits)
  have nomap: "map (\<lambda>sp. if sp_id sp = sp_id k then f sp else sp) (filter (\<lambda>sp. sp_id sp \<noteq> sp_id k) xs)
        = filter (\<lambda>sp. sp_id sp \<noteq> sp_id k) xs" for f xs
    by (induction xs) auto
  have nofind: "find_span (filter (\<lambda>sp. sp_id sp \<noteq> sp_id k) xs) (sp_id k) = None" for xs
    by (induction xs) (auto simp: find_span_def)
  have eq: "mergeSpans (sp_id k) (sp_id k) st =
           (True, st\<lparr> markers := markers st,
                      spans := filter (\<lambda>sp. sp_id sp \<noteq> sp_id k) (spans st),
                      selectedSpanId := Some (sp_id k),
                      selectedMarkerId := None \<rparr>)"
    unfolding mergeSpans_def using k I ab third
    by (simp add: Let_def nomap)
  show ?thesis using eq nofind by simp
qed

theorem mergeSpans_same_id_witness:
  "find_span (spans adjacent_store) ''A'' = Some (span_between ''A'' ''m0'' ''m1'' ''HELLO'')
   \<and> span_interval (markers adjacent_store) (span_between ''A'' ''m0'' ''m1'' ''HELLO'') = Some (0, 1000)
   \<and> fst (mergeSpans ''A'' ''A'' adjacent_store) = True
   \<and> map sp_id (spans (snd (mergeSpans ''A'' ''A'' adjacent_store))) = [''B'']
   \<and> markers (snd (mergeSpans ''A'' ''A'' adjacent_store)) = markers adjacent_store"
proof -
  let ?k = "span_between ''A'' ''m0'' ''m1'' ''HELLO''"
  have id: "sp_id ?k = ''A''" by (simp add: span_between_def)
  have k: "find_span (spans adjacent_store) (sp_id ?k) = Some ?k"
    by (simp add: adjacent_store_def example_defs find_span_def)
  have I: "span_interval (markers adjacent_store) ?k = Some (0, 1000)"
    by (simp add: adjacent_store_def example_defs span_interval_def find_marker_def)
  have free: "\<forall>sp\<in>set (spans adjacent_store). sp_id sp \<noteq> sp_id ?k \<and> same_track sp ?k \<longrightarrow>
                 (\<forall>J. span_interval (markers adjacent_store) sp = Some J \<longrightarrow> \<not> overlaps (0, 1000) J)"
    by (auto simp: adjacent_store_def example_defs span_interval_def find_marker_def overlaps_def)
  from mergeSpans_same_id [OF k I free] k I show ?thesis
    unfolding id by (simp add: adjacent_store_def example_defs)
qed

section \<open>Clearing room for a new span\<close>

text \<open>
  C4. After \<open>clearOverlappingSpans\<close> over [startMs, endMs) no span of the tier and
  video should reach into that range, so that adding a span anchored at startMs and endMs
  cannot be rejected for overlap. The store misses the case of a boundary marker shared by
  two adjacent spans. In \<open>adjacent_store\<close> span A = [0, 1000] contains the range
  [500, 800), so its end marker m1 is moved to 500; m1 is also the start of B, which
  thereby grows from [1000, 2000] to [500, 2000] and now covers the range. The
  following \<open>addSpan\<close> between the markers at 500 and 800 is rejected.
\<close>

theorem clearOverlappingSpans_shared_boundary:
  "map (span_interval (markers adjacent_store)) (spans adjacent_store)
     = [Some (0, 1000), Some (1000, 2000)]
   \<and> map sp_id (spans cleared_store) = [''A'', ''B'']
   \<and> map (span_interval (markers cleared_store)) (spans cleared_store)
     = [Some (0, 500), Some (500, 2000)]
   \<and> ivl_meet (500, 2000) (500, 800)
   \<and> span_interval (markers cleared_store) (span_between [] ''x'' ''y'' []) = Some (500, 800)
   \<and> addSpan ''u'' (span_between [] ''x'' ''y'' []) cleared_store = cleared_store"
  by code_simp

theorem clearOverlappingSpans_shared_boundary_witness:
  "map (span_interval (markers cleared_store)) (spans cleared_store)
     = [Some (0, 500), Some (500, 2000)]
   \<and> addSpan ''u'' (span_between [] ''x'' ''y'' []) cleared_store = cleared_store"
  using clearOverlappingSpans_shared_boundary by blast

section \<open>Cascading deletes\<close>

text \<open>
  C7. No store operation should leave a span whose anchor is absent from the markers list.
  \<open>removeMarker\<close> deletes the spans anchored at the marker it removes, but
  \<open>cancelPendingMarker\<close> and \<open>clearOverlappingSpans\<close> delete markers without looking
  at the spans they anchor. After a span has been drawn (\<open>drawn_store\<close>) its end marker
  is the pending marker; cancelling it keeps the span, which is then dangling, where
  removing the same marker with \<open>removeMarker\<close> deletes the span. Clearing [900, 2500)
  in \<open>adjacent_store\<close> deletes span B together with both its markers, one of which is
  the end of the surviving span A.
\<close>

theorem marker_deletion_leaves_dangling_spans:
  "pendingMarkerId drawn_store = Some ''m_u2''
   \<and> map endMarkerId (spans drawn_store) = [''m_u2'']
   \<and> list_all (\<lambda>sp. \<not> dangling drawn_store sp) (spans drawn_store)
   \<and> spans (cancelPendingMarker drawn_store) = spans drawn_store
   \<and> list_all (dangling (cancelPendingMarker drawn_store)) (spans (cancelPendingMarker drawn_store))
   \<and> spans (removeMarker ''m_u2'' drawn_store) = []
   \<and> list_all (\<lambda>sp. \<not> dangling adjacent_store sp) (spans adjacent_store)
   \<and> map sp_id (spans (clearOverlappingSpans 900 2500 ''tier1'' ''video1'' adjacent_store)) = [''A'']
   \<and> list_all (dangling (clearOverlappingSpans 900 2500 ''tier1'' ''video1'' adjacent_store))
        (spans (clearOverlappingSpans 900 2500 ''tier1'' ''video1'' adjacent_store))"
  by code_simp

theorem marker_deletion_leaves_dangling_spans_witness:
  "spans (cancelPendingMarker drawn_store) = spans drawn_store
   \<and> list_all (dangling (cancelPendingMarker drawn_store)) (spans (cancelPendingMarker drawn_store))"
  using marker_deletion_leaves_dangling_spans by blast

section \<open>Confirming a marker\<close>

text \<open>
  C8. If no marker carries the identifier, \<open>confirmMarker\<close> leaves the store unchanged.
  Otherwise, for the marker m the identifier resolves to: m receives the type and becomes
  confirmed, the pending reference is cleared if it pointed at m, and the spans stay as
  they are. If m's time lies strictly inside the interval of a span sp of m's tier and
  video, every marker carrying sp's \<open>endMarkerId\<close> is moved to m's time and every other
  marker keeps its time; sp is the one span that m's time lies inside, as it is when
  spans do not overlap, and in any store it is the first such span in store order.
  Identifiers are not empty, as \<open>generateId\<close> makes them. If m's time lies inside no
  span, every marker keeps its time.
\<close>

theorem confirmMarker_effect:
  "(find_marker (markers st) i = None \<longrightarrow> confirmMarker i ty st = st) \<and>
   (\<forall>m. find_marker (markers st) i = Some m \<longrightarrow>
      find_marker (markers (confirmMarker i ty st)) i = Some (m\<lparr> m_typeId := ty, m_confirmed := True \<rparr>) \<and>
      pendingMarkerId (confirmMarker i ty st) =
        (if pendingMarkerId st = Some i then None else pendingMarkerId st) \<and>
      spans (confirmMarker i ty st) = spans st \<and>
      (\<forall>sp\<in>set (spans st).
         strictly_inside (markers st) m sp \<and> endMarkerId sp \<noteq> [] \<and>
         (\<forall>sp'\<in>set (spans st). strictly_inside (markers st) m sp' \<longrightarrow> sp' = sp) \<longrightarrow>
         list_all2 (\<lambda>x y. m_id y = m_id x \<and>
                      m_time y = (if m_id x = endMarkerId sp then m_time m else m_time x))
           (markers st) (markers (confirmMarker i ty st))) \<and>
      (\<forall>sp. find (strictly_inside (markers st) m) (spans st) = Some sp \<and> endMarkerId sp \<noteq> [] \<longrightarrow>
         list_all2 (\<lambda>x y. m_id y = m_id x \<and>
                      m_time y = (if m_id x = endMarkerId sp then m_time m else m_time x))
           (markers st) (markers (confirmMarker i ty st))) \<and>
      ((\<forall>sp\<in>set (spans st). \<not> strictly_inside (markers st) m sp) \<longrightarrow>
         list_all2 (\<lambda>x y. m_id y = m_id x \<and> m_time y = m_time x)
           (markers st) (markers (confirmMarker i ty st))))"
proof (intro conjI allI impI ballI)
  assume "find_marker (markers st) i = None"
  then show "confirmMarker i ty st = st" by (simp add: confirmMarker_def)
next
  fix m assume m: "find_marker (markers st) i = Some m"
  show "find_marker (markers (confirmMarker i ty st)) i = Some (m\<lparr> m_typeId := ty, m_confirmed := True \<rparr>)"
    by (rule confirm_found[OF m])
  show "pendingMarkerId (confirmMarker i ty st) =
        (if pendingMarkerId st = Some i then None else pendingMarkerId st)"
    using m by (simp add: confirmMarker_def Let_def)
  show "spans (confirmMarker i ty st) = spans st"
    using m by (simp add: confirmMarker_def Let_def)
  show "list_all2 (\<lambda>x y. m_id y = m_id x \<and> m_time y = m_time x)
           (markers st) (markers (confirmMarker i ty st))"
    if "\<forall>sp\<in>set (spans st). \<not> strictly_inside (markers st) m sp"
    by (rule confirm_unsnapped[OF m that])
  show "list_all2 (\<lambda>x y. m_id y = m_id x \<and>
                      m_time y = (if m_id x = endMarkerId sp then m_time m else m_time x))
           (markers st) (markers (confirmMarker i ty st))"
    if "sp \<in> set (spans st)" and "strictly_inside (markers st) m sp \<and> endMarkerId sp \<noteq> [] \<and>
         (\<forall>sp'\<in>set (spans st). strictly_inside (markers st) m sp' \<longrightarrow> sp' = sp)" for sp
    by (rule confirm_snapped[OF m that(1) conjunct1[OF that(2)] conjunct1[OF conjunct2[OF that(2)]] conjunct2[OF conjunct2[OF that(2)]]])
  show "list_all2 (\<lambda>x y. m_id y = m_id x \<and>
                      m_time y = (if m_id x = endMarkerId sp then m_time m else m_time x))
           (markers st) (markers (confirmMarker i ty st))"
    if "find (strictly_inside (markers st) m) (spans st) = Some sp \<and> endMarkerId sp \<noteq> []" for sp
    by (rule confirm_snapped_first[OF m conjunct1[OF that] conjunct2[OF that]])
qed

theorem confirmMarker_effect_witness:
  "find_marker (markers pending_inside_store) ''p''
     = Some ((marker_at ''p'' 500)\<lparr> m_typeId := [], m_confirmed := False \<rparr>)
   \<and> strictly_inside (markers pending_inside_store)
        ((marker_at ''p'' 500)\<lparr> m_typeId := [], m_confirmed := False \<rparr>)
        (span_between ''A'' ''m0'' ''m1'' ''HELLO'')
   \<and> find_marker (markers (confirmMarker ''p'' ''sign-end'' pending_inside_store)) ''p''
     = Some ((marker_at ''p'' 500)\<lparr> m_typeId := ''sign-end'', m_confirmed := True \<rparr>)
   \<and> pendingMarkerId (confirmMarker ''p'' ''sign-end'' pending_inside_store) = None
   \<and> list_all2 (\<lambda>x y. m_id y = m_id x \<and> m_time y = (if m_id x = ''m1'' then 500 else m_time x))
        (markers pending_inside_store)
        (markers (confirmMarker ''p'' ''sign-end'' pending_inside_store))"
proof -
  let ?p = "(marker_at ''p'' 500)\<lparr> m_typeId := [], m_confirmed := False \<rparr>"
  let ?A = "span_between ''A'' ''m0'' ''m1'' ''HELLO''"
  have p: "find_marker (markers pending_inside_store) ''p'' = Some ?p"
    by (simp add: pending_inside_store_def example_defs find_marker_def)
  have A: "?A \<in> set (spans pending_inside_store)"
    by (simp add: pending_inside_store_def example_defs)
  have only: "\<forall>sp'\<in>set (spans pending_inside_store).
                strictly_inside (markers pending_inside_store) ?p sp' \<longrightarrow> sp' = ?A"
    by (simp add: pending_inside_store_def example_defs)
  have inside: "strictly_inside (markers pending_inside_store) ?p ?A"
    by (simp add: pending_inside_store_def example_defs strictly_inside_def
        span_interval_def find_marker_def)
  have e: "endMarkerId ?A = ''m1''" "m_time ?p = 500" "endMarkerId ?A \<noteq> []"
    by (simp_all add: example_defs)
  have pend: "pendingMarkerId pending_inside_store = Some ''p''"
    by (simp add: pending_inside_store_def example_defs)
  note eff = confirmMarker_effect [of pending_inside_store "''p''" "''sign-end''"]
  from eff p have found: "find_marker (markers (confirmMarker ''p'' ''sign-end'' pending_inside_store)) ''p''
      = Some (?p\<lparr> m_typeId := ''sign-end'', m_confirmed := True \<rparr>)"
    by blast
  from eff p have "pendingMarkerId (confirmMarker ''p'' ''sign-end'' pending_inside_store) =
        (if pendingMarkerId pending_inside_store = Some ''p'' then None
         else pendingMarkerId pending_inside_store)"
    by blast
  with pend have cleared: "pendingMarkerId (confirmMarker ''p'' ''sign-end'' pending_inside_store) = None"
    by simp
  from eff p A inside e(3) only
  have "list_all2 (\<lambda>x y. m_id y = m_id x \<and>
                      m_time y = (if m_id x = endMarkerId ?A then m_time ?p else m_time x))
           (markers pending_inside_store)
           (markers (confirmMarker ''p'' ''sign-end'' pending_inside_store))"
    by blast
  then have moved: "list_all2 (\<lambda>x y. m_id y = m_id x \<and> m_time y = (if m_id x = ''m1'' then 500 else m_time x))
        (markers pending_inside_store)
        (markers (confirmMarker ''p'' ''sign-end'' pending_inside_store))"
    unfolding e(1) e(2) .
  from p inside found cleared moved show ?thesis
    by (simp add: example_defs)
qed

section \<open>The no-overlap invariant\<close>

lemma no_overlapD:
  assumes "no_overlap st" "A \<in> set (spans st)" "B \<in> set (spans st)"
    "sp_id A \<noteq> sp_id B" "same_track A B"
    "span_interval (markers st) A = Some I" "span_interval (markers st) B = Some J"
  shows "\<not> ivl_meet I J"
proof -
  from assms(1,2,3) have "sp_id A \<noteq> sp_id B \<and> same_track A B \<longrightarrow>
        (case (span_interval (markers st) A, span_interval (markers st) B) of
           (Some I, Some J) \<Rightarrow> \<not> ivl_meet I J
         | _ \<Rightarrow> True)"
    unfolding no_overlap_def by blast
  with assms(4-7) show ?thesis by simp
qed

lemma no_overlapI:
  assumes "\<And>A B I J. A \<in> set (spans st) \<Longrightarrow> B \<in> set (spans st) \<Longrightarrow> sp_id A \<noteq> sp_id B \<Longrightarrow>
     same_track A B \<Longrightarrow> span_interval (markers st) A = Some I \<Longrightarrow>
     span_interval (markers st) B = Some J \<Longrightarrow> \<not> ivl_meet I J"
  shows "no_overlap st"
  unfolding no_overlap_def
proof (intro ballI impI)
  fix A B assume AB: "A \<in> set (spans st)" "B \<in> set (spans st)"
    and h: "sp_id A \<noteq> sp_id B \<and> same_track A B"
  show "case (span_interval (markers st) A, span_interval (markers st) B) of
           (Some I, Some J) \<Rightarrow> \<not> ivl_meet I J
         | _ \<Rightarrow> True"
  proof (cases "span_interval (markers st) A")
    case None
    then show ?thesis by simp
  next
    case (Some I)
    note I = this
    show ?thesis
    proof (cases "span_interval (markers st) B")
      case None
      then show ?thesis using I by simp
    next
      case (Some J)
      with assms[OF AB _ _ I Some] h I show ?thesis by simp
    qed
  qed
qed

lemma ivl_meet_sym: "ivl_meet I J = ivl_meet J I"
  by (simp add: ivl_meet_def max.commute min.commute)

lemma ivl_meet_mono:
  assumes "ivl_meet I' J'" "fst I \<le> fst I'" "snd I' \<le> snd I" "fst J \<le> fst J'" "snd J' \<le> snd J"
  shows "ivl_meet I J"
  using assms unfolding ivl_meet_def by linarith

lemma same_track_sym: "same_track A B = same_track B A"
  by (auto simp: same_track_def)

lemma span_interval_id_update:
  "span_interval ms (sp\<lparr> sp_id := x \<rparr>) = span_interval ms sp"
  by (simp add: span_interval_def split: option.splits)

lemma span_interval_filter:
  "span_interval (filter (\<lambda>m. m_id m \<notin> R) ms) sp =
     (if startMarkerId sp \<in> R \<or> endMarkerId sp \<in> R then None else span_interval ms sp)"
  by (simp add: span_interval_def find_marker_filter split: option.splits)

lemma span_interval_anchors:
  assumes "span_interval ms sp = Some (a, b)"
  obtains s e where "find_marker ms (startMarkerId sp) = Some s"
    "find_marker ms (endMarkerId sp) = Some e"
    "a = min (m_time s) (m_time e)" "b = max (m_time s) (m_time e)"
  using assms by (auto simp: span_interval_def split: option.splits)

subsection \<open>addSpan\<close>

lemma addSpan_cases:
  obtains (rejected) "addSpan uuid span st = st"
  | (added) new where "span_interval (markers st) span = Some new"
      "\<And>B J. B \<in> set (spans st) \<Longrightarrow> same_track B span \<Longrightarrow>
         span_interval (markers st) B = Some J \<Longrightarrow> \<not> overlaps new J"
      "addSpan uuid span st = st\<lparr> spans := spans st @ [span\<lparr> sp_id := generateId ''sp'' uuid \<rparr>] \<rparr>"
proof (cases "span_interval (markers st) span")
  case None
  then have "addSpan uuid span st = st" by (simp add: addSpan_def)
  then show ?thesis by (rule rejected)
next
  case (Some new)
  let ?P = "\<lambda>existing.
                     if sp_tierId existing \<noteq> sp_tierId span \<or> sp_videoId existing \<noteq> sp_videoId span
                     then False
                     else case span_interval (markers st) existing of
                            None \<Rightarrow> False
                          | Some exist \<Rightarrow> overlaps new exist"
  show ?thesis
  proof (cases "list_ex ?P (spans st)")
    case True
    with Some have "addSpan uuid span st = st" by (simp add: addSpan_def)
    then show ?thesis by (rule rejected)
  next
    case False
    have free: "\<not> overlaps new J" if "B \<in> set (spans st)" "same_track B span"
      "span_interval (markers st) B = Some J" for B J
    proof
      assume "overlaps new J"
      with that have "?P B" by (simp add: same_track_def)
      with that(1) False show False unfolding list_ex_iff by blast
    qed
    from Some False
    have "addSpan uuid span st = st\<lparr> spans := spans st @ [span\<lparr> sp_id := generateId ''sp'' uuid \<rparr>] \<rparr>"
      by (simp add: addSpan_def)
    with Some free show ?thesis by (rule added)
  qed
qed

lemma addSpan_keeps_invariant:
  assumes inv: "no_overlap st" and ids: "unique_span_ids st"
    and fresh: "generateId ''sp'' uuid \<notin> set (map sp_id (spans st))"
  shows "no_overlap (addSpan uuid span st) \<and> unique_span_ids (addSpan uuid span st)"
proof (cases rule: addSpan_cases[of uuid span st])
  case rejected
  with inv ids show ?thesis by simp
next
  case (added new)
  let ?N = "span\<lparr> sp_id := generateId ''sp'' uuid \<rparr>"
  let ?st = "st\<lparr> spans := spans st @ [?N] \<rparr>"
  have N: "span_interval (markers st) ?N = Some new"
    using added(1) by (simp add: span_interval_id_update)
  have track: "same_track ?N B = same_track span B" "same_track B ?N = same_track B span" for B
    by (simp_all add: same_track_def)
  have "no_overlap ?st"
  proof (rule no_overlapI)
    fix A B I J
    assume A: "A \<in> set (spans ?st)" and B: "B \<in> set (spans ?st)"
      and ne: "sp_id A \<noteq> sp_id B" and tr: "same_track A B"
      and I: "span_interval (markers ?st) A = Some I"
      and J: "span_interval (markers ?st) B = Some J"
    from A B consider (old) "A \<in> set (spans st)" "B \<in> set (spans st)"
      | (newA) "A = ?N" "B \<in> set (spans st)"
      | (newB) "A \<in> set (spans st)" "B = ?N"
      | (both) "A = ?N" "B = ?N" by auto
    then show "\<not> ivl_meet I J"
    proof cases
      case old
      from no_overlapD[OF inv old ne tr] I J show ?thesis by simp
    next
      case newA
      from I N newA have "I = new" by simp
      moreover have "\<not> overlaps new J"
        using added(2)[OF newA(2)] tr J newA(1) by (simp add: track same_track_sym)
      ultimately show ?thesis using ivl_meet_overlaps by blast
    next
      case newB
      from J N newB have "J = new" by simp
      moreover have "\<not> overlaps new I"
        using added(2)[OF newB(1)] tr I newB(2) by (simp add: track)
      ultimately show ?thesis using ivl_meet_overlaps ivl_meet_sym by blast
    next
      case both
      with ne show ?thesis by simp
    qed
  qed
  moreover have "unique_span_ids ?st"
    using ids fresh by (simp add: unique_span_ids_def)
  ultimately show ?thesis using added(3) by simp
qed

subsection \<open>mergeSpans\<close>

lemma find_span_mem: "find_span sps i = Some sp \<Longrightarrow> sp \<in> set sps \<and> sp_id sp = i"
  unfolding find_span_def by (induction sps) (auto split: if_splits)

lemma unique_id_eq:
  assumes "distinct (map sp_id sps)" "A \<in> set sps" "B \<in> set sps" "sp_id A = sp_id B"
  shows "A = B"
  using assms by (meson distinct_map inj_onD)

lemma mergeSpans_cases:
  obtains (rejected) "mergeSpans keepId removeId st = (False, st)"
  | (merged) keepSp removeSp a b c d fs fe rm g where
      "find_span (spans st) keepId = Some keepSp"
      "find_span (spans st) removeId = Some removeSp"
      "span_interval (markers st) keepSp = Some (a, b)"
      "span_interval (markers st) removeSp = Some (c, d)"
      "\<And>T J. T \<in> set (spans st) \<Longrightarrow> sp_id T \<noteq> keepId \<Longrightarrow> sp_id T \<noteq> removeId \<Longrightarrow>
         same_track T keepSp \<Longrightarrow> span_interval (markers st) T = Some J \<Longrightarrow>
         \<not> overlaps (min a c, max b d) J"
      "fs = startMarkerId keepSp \<or> fs = startMarkerId removeSp"
      "fe = endMarkerId removeSp \<or> fe = endMarkerId keepSp"
      "fs \<notin> set rm" "fe \<notin> set rm"
      "mergeSpans keepId removeId st =
         (True, st\<lparr> markers := filter (\<lambda>m. m_id m \<notin> set rm) (markers st),
                    spans := map (\<lambda>sp. if sp_id sp = keepId
                                        then sp\<lparr> startMarkerId := fs, endMarkerId := fe, gloss := g \<rparr>
                                        else sp)
                               (filter (\<lambda>sp. sp_id sp \<noteq> removeId) (spans st)),
                    selectedSpanId := Some keepId,
                    selectedMarkerId := None \<rparr>)"
proof (cases "find_span (spans st) keepId")
  case None
  then have "mergeSpans keepId removeId st = (False, st)" by (simp add: mergeSpans_def)
  then show ?thesis by (rule rejected)
next
  case (Some keepSp)
  note K = this
  show ?thesis
  proof (cases "find_span (spans st) removeId")
    case None
    with K have "mergeSpans keepId removeId st = (False, st)" by (simp add: mergeSpans_def)
    then show ?thesis by (rule rejected)
  next
    case (Some removeSp)
    note R = this
    show ?thesis
    proof (cases "same_track keepSp removeSp")
      case False
      with K R have "mergeSpans keepId removeId st = (False, st)"
        by (auto simp: mergeSpans_def same_track_def)
      then show ?thesis by (rule rejected)
    next
      case True
      note tr = this
      show ?thesis
      proof (cases "span_interval (markers st) keepSp")
        case None
        with K R have "mergeSpans keepId removeId st = (False, st)" by (simp add: mergeSpans_def)
        then show ?thesis by (rule rejected)
      next
        case (Some I)
        note I = this
        show ?thesis
        proof (cases "span_interval (markers st) removeSp")
          case None
          with K R I have "mergeSpans keepId removeId st = (False, st)"
            by (simp add: mergeSpans_def split: prod.splits)
          then show ?thesis by (rule rejected)
        next
          case (Some J)
          obtain a b c d where ab: "I = (a, b)" and cd: "J = (c, d)" by (cases I, cases J) auto
          let ?P = "\<lambda>sp.
                if sp_id sp = keepId \<or> sp_id sp = removeId then False
                else if sp_tierId sp \<noteq> sp_tierId keepSp \<or> sp_videoId sp \<noteq> sp_videoId keepSp
                then False
                else case span_interval (markers st) sp of
                       None \<Rightarrow> False
                     | Some third \<Rightarrow> overlaps (min a c, max b d) third"
          show ?thesis
          proof (cases "list_ex ?P (spans st)")
            case True
            with K R tr I Some ab cd have "mergeSpans keepId removeId st = (False, st)"
              by (simp add: mergeSpans_def same_track_def)
            then show ?thesis by (rule rejected)
          next
            case False
            have free: "\<not> overlaps (min a c, max b d) L"
              if "T \<in> set (spans st)" "sp_id T \<noteq> keepId" "sp_id T \<noteq> removeId"
                "same_track T keepSp" "span_interval (markers st) T = Some L" for T L
            proof
              assume "overlaps (min a c, max b d) L"
              with that have "?P T" by (simp add: same_track_def)
              with that(1) False show False unfolding list_ex_iff by blast
            qed
            let ?fs = "if a \<le> c then startMarkerId keepSp else startMarkerId removeSp"
            let ?fe = "if a \<le> c then endMarkerId removeSp else endMarkerId keepSp"
            let ?rm = "filter (\<lambda>i. i \<noteq> ?fs \<and> i \<noteq> ?fe)
                  [if a \<le> c then endMarkerId keepSp else endMarkerId removeSp,
                   if a \<le> c then startMarkerId removeSp else startMarkerId keepSp]"
            let ?g = "join '' + '' (filter truthy [gloss keepSp, gloss removeSp])"
            have res: "mergeSpans keepId removeId st =
              (True, st\<lparr> markers := filter (\<lambda>m. m_id m \<notin> set ?rm) (markers st),
                    spans := map (\<lambda>sp. if sp_id sp = keepId
                                        then sp\<lparr> startMarkerId := ?fs, endMarkerId := ?fe, gloss := ?g \<rparr>
                                        else sp)
                               (filter (\<lambda>sp. sp_id sp \<noteq> removeId) (spans st)),
                    selectedSpanId := Some keepId,
                    selectedMarkerId := None \<rparr>)"
              using K R tr I Some ab cd False
              by (simp add: mergeSpans_def same_track_def Let_def)
            have a1: "?fs = startMarkerId keepSp \<or> ?fs = startMarkerId removeSp" by simp
            have a2: "?fe = endMarkerId removeSp \<or> ?fe = endMarkerId keepSp" by simp
            have a3: "?fs \<notin> set ?rm" by simp
            have a4: "?fe \<notin> set ?rm" by simp
            show ?thesis
              by (rule merged[OF K R I[unfolded ab] Some[unfolded cd] free a1 a2 a3 a4 res])
          qed
        qed
      qed
    qed
  qed
qed

lemma mergeSpans_keeps_invariant:
  assumes inv: "no_overlap st" and ids: "unique_span_ids st"
  shows "no_overlap (snd (mergeSpans keepId removeId st))
         \<and> unique_span_ids (snd (mergeSpans keepId removeId st))"
proof (cases rule: mergeSpans_cases[of keepId removeId st])
  case rejected
  with inv ids show ?thesis by simp
next
  case (merged keepSp removeSp a b c d fs fe rm g)
  let ?upd = "\<lambda>sp. if sp_id sp = keepId
                     then sp\<lparr> startMarkerId := fs, endMarkerId := fe, gloss := g \<rparr> else sp"
  let ?ms = "filter (\<lambda>m. m_id m \<notin> set rm) (markers st)"
  let ?sps = "map ?upd (filter (\<lambda>sp. sp_id sp \<noteq> removeId) (spans st))"
  let ?st = "st\<lparr> markers := ?ms, spans := ?sps, selectedSpanId := Some keepId,
                  selectedMarkerId := None \<rparr>"
  have st': "snd (mergeSpans keepId removeId st) = ?st" using merged(10) by simp
  from span_interval_anchors[OF merged(3)] obtain ks ke where
    k: "find_marker (markers st) (startMarkerId keepSp) = Some ks"
       "find_marker (markers st) (endMarkerId keepSp) = Some ke"
       "a = min (m_time ks) (m_time ke)" "b = max (m_time ks) (m_time ke)" by blast
  from span_interval_anchors[OF merged(4)] obtain rs re where
    r: "find_marker (markers st) (startMarkerId removeSp) = Some rs"
       "find_marker (markers st) (endMarkerId removeSp) = Some re"
       "c = min (m_time rs) (m_time re)" "d = max (m_time rs) (m_time re)" by blast
  have keepSp: "keepSp \<in> set (spans st)" "sp_id keepSp = keepId"
    using find_span_mem[OF merged(1)] by simp_all
  have old_ivl: "span_interval (markers st) X = Some L"
    if "span_interval ?ms X = Some L" for X L
    using that by (simp add: span_interval_filter split: if_splits)
  have kept_ivl: "min a c \<le> fst L \<and> snd L \<le> max b d"
    if "span_interval ?ms (X\<lparr> startMarkerId := fs, endMarkerId := fe, gloss := g \<rparr>) = Some L" for X L
  proof -
    from that have L: "span_interval (markers st) (X\<lparr> startMarkerId := fs, endMarkerId := fe, gloss := g \<rparr>) = Some L"
      by (rule old_ivl)
    obtain x y where xy: "find_marker (markers st) fs = Some x" "find_marker (markers st) fe = Some y"
      "L = (min (m_time x) (m_time y), max (m_time x) (m_time y))"
      using L by (auto simp: span_interval_def split: option.splits)
    from xy(1) merged(6) k r have "x = ks \<or> x = rs" by auto
    moreover from xy(2) merged(7) k r have "y = re \<or> y = ke" by auto
    ultimately show ?thesis unfolding xy(3) k(3,4) r(3,4) by auto
  qed
  have mem: "\<exists>X\<in>set (spans st). sp_id X \<noteq> removeId \<and> A = ?upd X" if "A \<in> set ?sps" for A
    using that by auto
  have third: "\<not> ivl_meet I J"
    if X: "X \<in> set (spans st)" "sp_id X = keepId"
      and Y: "Y \<in> set (spans st)" "sp_id Y \<noteq> keepId" "sp_id Y \<noteq> removeId"
      and tr: "same_track X Y"
      and I: "span_interval ?ms (X\<lparr> startMarkerId := fs, endMarkerId := fe, gloss := g \<rparr>) = Some I"
      and J: "span_interval ?ms Y = Some J" for X Y I J
  proof
    assume meet: "ivl_meet I J"
    have "X = keepSp"
      using unique_id_eq[OF ids[unfolded unique_span_ids_def] X(1) keepSp(1)] X(2) keepSp(2) by simp
    with tr have "same_track Y keepSp" by (simp add: same_track_sym)
    from merged(5)[OF Y(1) Y(2) Y(3) this old_ivl[OF J]]
    have "\<not> ivl_meet (min a c, max b d) J" using ivl_meet_overlaps by blast
    moreover have "ivl_meet (min a c, max b d) J"
      using ivl_meet_mono[OF meet, of "(min a c, max b d)" J] kept_ivl[OF I] by simp
    ultimately show False by contradiction
  qed
  have "no_overlap ?st"
  proof (rule no_overlapI)
    fix A B I J
    assume A: "A \<in> set (spans ?st)" and B: "B \<in> set (spans ?st)"
      and ne: "sp_id A \<noteq> sp_id B" and tr: "same_track A B"
      and I: "span_interval (markers ?st) A = Some I"
      and J: "span_interval (markers ?st) B = Some J"
    from A mem obtain X where X: "X \<in> set (spans st)" "sp_id X \<noteq> removeId" "A = ?upd X" by auto
    from B mem obtain Y where Y: "Y \<in> set (spans st)" "sp_id Y \<noteq> removeId" "B = ?upd Y" by auto
    have idA: "sp_id A = sp_id X" and idB: "sp_id B = sp_id Y" using X(3) Y(3) by simp_all
    have trXY: "same_track X Y" using tr X(3) Y(3) by (simp add: same_track_def split: if_splits)
    show "\<not> ivl_meet I J"
    proof (cases "sp_id X = keepId")
      case True
      then have neY: "sp_id Y \<noteq> keepId" using ne idA idB by simp
      then have "B = Y" using Y(3) by simp
      with J have J': "span_interval ?ms Y = Some J" by simp
      from True X(3) I have I': "span_interval ?ms (X\<lparr> startMarkerId := fs, endMarkerId := fe, gloss := g \<rparr>) = Some I"
        by simp
      show ?thesis by (rule third[OF X(1) True Y(1) neY Y(2) trXY I' J'])
    next
      case False
      then have AX: "A = X" using X(3) by simp
      show ?thesis
      proof (cases "sp_id Y = keepId")
        case True
        from True Y(3) J have J': "span_interval ?ms (Y\<lparr> startMarkerId := fs, endMarkerId := fe, gloss := g \<rparr>) = Some J"
          by simp
        from AX I have I': "span_interval ?ms X = Some I" by simp
        have "\<not> ivl_meet J I"
          by (rule third[OF Y(1) True X(1) False X(2) _ J' I']) (simp add: trXY same_track_sym)
        then show ?thesis by (simp add: ivl_meet_sym)
      next
        case False
        then have BY: "B = Y" using Y(3) by simp
        from I AX have "span_interval (markers st) X = Some I" using old_ivl by simp
        moreover from J BY have "span_interval (markers st) Y = Some J" using old_ivl by simp
        ultimately show ?thesis
          using no_overlapD[OF inv X(1) Y(1) _ trXY] ne idA idB by simp
      qed
    qed
  qed
  moreover have "unique_span_ids ?st"
  proof -
    have "map sp_id ?sps = filter (\<lambda>i. i \<noteq> removeId) (map sp_id (spans st))"
      by (induction "spans st") (auto simp: filter_map comp_def)
    then show ?thesis using ids by (simp add: unique_span_ids_def)
  qed
  ultimately show ?thesis unfolding st' by simp
qed

subsection \<open>clearOverlappingSpans\<close>

lemma clear_step_updates:
  "snd (snd (clear_step ms s e tier video (rs, rm, upd) sp)) =
     (case trim_of ms s e tier video sp of None \<Rightarrow> upd | Some p \<Rightarrow> p # upd)"
  by (simp add: trim_of_def Let_def split: option.splits)

lemma trim_of_facts:
  assumes "trim_of ms s e tier video sp = Some (i, t)"
  obtains sM eM where
    "find_marker ms (startMarkerId sp) = Some sM" "find_marker ms (endMarkerId sp) = Some eM"
    "(min (m_time sM) (m_time eM) < s \<and> s < max (m_time sM) (m_time eM) \<and>
        i = (if m_time sM \<le> m_time eM then endMarkerId sp else startMarkerId sp) \<and> t = s)
     \<or> (s \<le> min (m_time sM) (m_time eM) \<and> min (m_time sM) (m_time eM) < e \<and>
        e < max (m_time sM) (m_time eM) \<and>
        i = (if m_time sM \<le> m_time eM then startMarkerId sp else endMarkerId sp) \<and> t = e)"
proof (cases "find_marker ms (startMarkerId sp)")
  case None
  with assms show ?thesis by (simp add: trim_of_def split: if_splits)
next
  case (Some sM)
  note sM = this
  show ?thesis
  proof (cases "find_marker ms (endMarkerId sp)")
    case None
    with assms sM show ?thesis by (simp add: trim_of_def split: if_splits)
  next
    case (Some eM)
    from assms sM Some have
     "(min (m_time sM) (m_time eM) < s \<and> s < max (m_time sM) (m_time eM) \<and>
        i = (if m_time sM \<le> m_time eM then endMarkerId sp else startMarkerId sp) \<and> t = s)
     \<or> (s \<le> min (m_time sM) (m_time eM) \<and> min (m_time sM) (m_time eM) < e \<and>
        e < max (m_time sM) (m_time eM) \<and>
        i = (if m_time sM \<le> m_time eM then startMarkerId sp else endMarkerId sp) \<and> t = e)"
      unfolding trim_of_def
      by (simp add: Let_def split: if_splits)
    with sM Some show ?thesis by (rule that)
  qed
qed

lemma clear_fold_updates:
  assumes "(i, t) \<in> set (snd (snd (foldl (clear_step ms s e tier video) acc sps)))"
  shows "(i, t) \<in> set (snd (snd acc)) \<or> (\<exists>sp\<in>set sps. trim_of ms s e tier video sp = Some (i, t))"
  using assms
proof (induction sps arbitrary: acc)
  case Nil
  then show ?case by simp
next
  case (Cons sp sps)
  obtain rs rm upd where acc: "acc = (rs, rm, upd)" by (cases acc) auto
  from Cons.prems have "(i, t) \<in> set (snd (snd (foldl (clear_step ms s e tier video)
      (clear_step ms s e tier video acc sp) sps)))" by simp
  from Cons.IH[OF this] show ?case
  proof
    assume "(i, t) \<in> set (snd (snd (clear_step ms s e tier video acc sp)))"
    then have "(i, t) \<in> set upd \<or> trim_of ms s e tier video sp = Some (i, t)"
      unfolding acc clear_step_updates by (auto split: option.splits)
    then show ?thesis unfolding acc by auto
  next
    assume "\<exists>sp\<in>set sps. trim_of ms s e tier video sp = Some (i, t)"
    then show ?thesis by auto
  qed
qed

lemma distinct_concat_same:
  assumes "distinct (concat (map f xs))" "x \<in> set xs" "y \<in> set xs"
    "i \<in> set (f x)" "i \<in> set (f y)"
  shows "x = y"
  using assms by (induction xs) auto

lemma distinct_concat_each:
  assumes "distinct (concat (map f xs))" "x \<in> set xs"
  shows "distinct (f x)"
  using assms by (induction xs) auto

lemma anchors_unshared_same:
  assumes "anchors_unshared st" "X \<in> set (spans st)" "Y \<in> set (spans st)"
    "i = startMarkerId X \<or> i = endMarkerId X" "i = startMarkerId Y \<or> i = endMarkerId Y"
  shows "X = Y"
  using distinct_concat_same[OF assms(1)[unfolded anchors_unshared_def] assms(2,3), of i] assms(4,5)
  by auto

lemma anchors_unshared_ne:
  assumes "anchors_unshared st" "X \<in> set (spans st)"
  shows "startMarkerId X \<noteq> endMarkerId X"
  using distinct_concat_each[OF assms(1)[unfolded anchors_unshared_def] assms(2)] by simp

lemma clear_shrinks:
  assumes unshared: "anchors_unshared st" and X: "X \<in> set (spans st)"
    and upd: "upd = snd (snd (foldl (clear_step (markers st) s e tier video) ([], [], []) (spans st)))"
    and I': "span_interval
               (map (\<lambda>m. case map_of upd (m_id m) of Some t \<Rightarrow> m\<lparr> m_time := t \<rparr> | None \<Rightarrow> m)
                  (filter (\<lambda>m. m_id m \<notin> R) (markers st))) X = Some I'"
  shows "\<exists>I. span_interval (markers st) X = Some I \<and> fst I \<le> fst I' \<and> snd I' \<le> snd I"
proof -
  let ?ap = "\<lambda>m. case map_of upd (m_id m) of Some t \<Rightarrow> m\<lparr> m_time := t \<rparr> | None \<Rightarrow> m"
  have idap: "\<And>x. m_id (?ap x) = m_id x" by (simp split: option.splits)
  have fm: "find_marker (map ?ap (filter (\<lambda>m. m_id m \<notin> R) (markers st))) i =
      (if i \<in> R then None else map_option ?ap (find_marker (markers st) i))" for i
    unfolding find_marker_map[of ?ap, OF idap] find_marker_filter by simp
  from I' obtain sM eM where
    sM: "find_marker (markers st) (startMarkerId X) = Some sM" and
    eM: "find_marker (markers st) (endMarkerId X) = Some eM" and
    I'eq: "I' = (min (m_time (?ap sM)) (m_time (?ap eM)), max (m_time (?ap sM)) (m_time (?ap eM)))"
    unfolding span_interval_def fm by (auto split: option.splits if_splits)
  have idS: "m_id sM = startMarkerId X" and idE: "m_id eM = endMarkerId X"
    using find_marker_id[OF sM] find_marker_id[OF eM] by simp_all
  have I: "span_interval (markers st) X =
      Some (min (m_time sM) (m_time eM), max (m_time sM) (m_time eM))"
    using sM eM by (simp add: span_interval_def)
  have ne: "startMarkerId X \<noteq> endMarkerId X" by (rule anchors_unshared_ne[OF unshared X])
  have own: "trim_of (markers st) s e tier video X = Some (i, t)"
    if "map_of upd i = Some t" "i = startMarkerId X \<or> i = endMarkerId X" for i t
  proof -
    from that(1) have "(i, t) \<in> set upd" by (rule map_of_SomeD)
    from clear_fold_updates[OF this[unfolded upd]]
    obtain sp where sp: "sp \<in> set (spans st)" "trim_of (markers st) s e tier video sp = Some (i, t)"
      by auto
    from trim_of_facts[OF sp(2)] have "i = startMarkerId sp \<or> i = endMarkerId sp"
      by (metis (full_types))
    from anchors_unshared_same[OF unshared X sp(1) that(2) this] sp(2) show ?thesis by simp
  qed
  have facts: "(min (m_time sM) (m_time eM) < s \<and> s < max (m_time sM) (m_time eM) \<and>
        i = (if m_time sM \<le> m_time eM then endMarkerId X else startMarkerId X) \<and> t = s)
     \<or> (s \<le> min (m_time sM) (m_time eM) \<and> min (m_time sM) (m_time eM) < e \<and>
        e < max (m_time sM) (m_time eM) \<and>
        i = (if m_time sM \<le> m_time eM then startMarkerId X else endMarkerId X) \<and> t = e)"
    if "trim_of (markers st) s e tier video X = Some (i, t)" for i t
    using trim_of_facts[OF that] sM eM by (metis option.inject)
  show ?thesis
  proof (cases "map_of upd (startMarkerId X)")
    case None
    note noS = this
    show ?thesis
    proof (cases "map_of upd (endMarkerId X)")
      case None
      with noS I I'eq idS idE show ?thesis by simp
    next
      case (Some t)
      from facts[OF own[OF Some]] ne
      have "(min (m_time sM) (m_time eM) < s \<and> s < max (m_time sM) (m_time eM) \<and>
              m_time sM \<le> m_time eM \<and> t = s)
          \<or> (s \<le> min (m_time sM) (m_time eM) \<and> min (m_time sM) (m_time eM) < e \<and>
              e < max (m_time sM) (m_time eM) \<and> \<not> m_time sM \<le> m_time eM \<and> t = e)"
        by (auto split: if_splits)
      then have "min (m_time sM) (m_time eM) \<le> min (m_time sM) t
            \<and> max (m_time sM) t \<le> max (m_time sM) (m_time eM)"
        by linarith
      with noS Some I I'eq idS idE show ?thesis by simp
    qed
  next
    case (Some t)
    note S = this
    have noE: "map_of upd (endMarkerId X) = None"
    proof (cases "map_of upd (endMarkerId X)")
      case None
      then show ?thesis .
    next
      case (Some t')
      from own[OF S] own[OF Some] ne show ?thesis by simp
    qed
    from facts[OF own[OF S]] ne
    have "(min (m_time sM) (m_time eM) < s \<and> s < max (m_time sM) (m_time eM) \<and>
              \<not> m_time sM \<le> m_time eM \<and> t = s)
          \<or> (s \<le> min (m_time sM) (m_time eM) \<and> min (m_time sM) (m_time eM) < e \<and>
              e < max (m_time sM) (m_time eM) \<and> m_time sM \<le> m_time eM \<and> t = e)"
      by (auto split: if_splits)
    then have "min (m_time sM) (m_time eM) \<le> min t (m_time eM)
            \<and> max t (m_time eM) \<le> max (m_time sM) (m_time eM)"
      by linarith
    with noE S I I'eq idS idE show ?thesis by simp
  qed
qed

lemma clearOverlappingSpans_keeps_invariant:
  assumes inv: "no_overlap st" and ids: "unique_span_ids st" and unshared: "anchors_unshared st"
  shows "no_overlap (clearOverlappingSpans s e tier video st)
         \<and> unique_span_ids (clearOverlappingSpans s e tier video st)"
proof -
  obtain rs rm upd where res:
    "foldl (clear_step (markers st) s e tier video) ([], [], []) (spans st) = (rs, rm, upd)"
    by (metis prod_cases3)
  show ?thesis
  proof (cases "rs = [] \<and> upd = []")
    case True
    with res have "clearOverlappingSpans s e tier video st = st"
      by (simp add: clearOverlappingSpans_def)
    with inv ids show ?thesis by simp
  next
    case False
    let ?ms = "map (\<lambda>m. case map_of upd (m_id m) of Some t \<Rightarrow> m\<lparr> m_time := t \<rparr> | None \<Rightarrow> m)
                 (filter (\<lambda>m. m_id m \<notin> set rm) (markers st))"
    let ?st = "st\<lparr> markers := ?ms, spans := filter (\<lambda>sp. sp_id sp \<notin> set rs) (spans st) \<rparr>"
    from False res have st': "clearOverlappingSpans s e tier video st = ?st"
      by (auto simp: clearOverlappingSpans_def)
    have upd: "upd = snd (snd (foldl (clear_step (markers st) s e tier video) ([], [], []) (spans st)))"
      using res by simp
    have "no_overlap ?st"
    proof (rule no_overlapI)
      fix A B I' J'
      assume A: "A \<in> set (spans ?st)" and B: "B \<in> set (spans ?st)"
        and ne: "sp_id A \<noteq> sp_id B" and tr: "same_track A B"
        and I': "span_interval (markers ?st) A = Some I'"
        and J': "span_interval (markers ?st) B = Some J'"
      from A B have A0: "A \<in> set (spans st)" and B0: "B \<in> set (spans st)" by simp_all
      from I' have "span_interval ?ms A = Some I'" by simp
      from clear_shrinks[OF unshared A0 upd this]
      obtain I where I: "span_interval (markers st) A = Some I" "fst I \<le> fst I'" "snd I' \<le> snd I"
        by blast
      from J' have "span_interval ?ms B = Some J'" by simp
      from clear_shrinks[OF unshared B0 upd this]
      obtain J where J: "span_interval (markers st) B = Some J" "fst J \<le> fst J'" "snd J' \<le> snd J"
        by blast
      from no_overlapD[OF inv A0 B0 ne tr I(1) J(1)] have "\<not> ivl_meet I J" .
      then show "\<not> ivl_meet I' J'"
        using ivl_meet_mono[OF _ I(2) I(3) J(2) J(3)] by blast
    qed
    moreover have "unique_span_ids ?st"
      using ids by (simp add: unique_span_ids_def distinct_map_filter)
    ultimately show ?thesis unfolding st' by simp
  qed
qed

lemma step_keeps_invariant:
  assumes "no_overlap st" "unique_span_ids st" "op_guard op st"
  shows "no_overlap (apply_span_op op st) \<and> unique_span_ids (apply_span_op op st)"
proof (cases op)
  case (AddSpan uuid span)
  with assms show ?thesis using addSpan_keeps_invariant by simp
next
  case (MergeSpans k r)
  with assms show ?thesis using mergeSpans_keeps_invariant by simp
next
  case (ClearOverlappingSpans s e tier video)
  with assms show ?thesis using clearOverlappingSpans_keeps_invariant by simp
qed

lemma run_keeps_invariant:
  "no_overlap st \<Longrightarrow> unique_span_ids st \<Longrightarrow> guarded ops st \<Longrightarrow>
   no_overlap (run_span_ops ops st) \<and> unique_span_ids (run_span_ops ops st)"
proof (induction ops arbitrary: st)
  case Nil
  then show ?case by simp
next
  case (Cons op ops)
  from Cons.prems have g: "op_guard op st" "guarded ops (apply_span_op op st)" by simp_all
  from step_keeps_invariant[OF Cons.prems(1,2) g(1)] Cons.IH[OF _ _ g(2)]
  show ?case by simp
qed

lemma addSpan_rejects_meeting:
  assumes "B \<in> set (spans st)" "same_track B span"
    "span_interval (markers st) span = Some I" "span_interval (markers st) B = Some J"
    "ivl_meet I J"
  shows "addSpan uuid span st = st"
proof (cases rule: addSpan_cases[of uuid span st])
  case rejected
  then show ?thesis .
next
  case (added new)
  from added(1) assms(3) have "new = I" by simp
  with added(2)[OF assms(1,2,4)] ivl_meet_overlaps[OF assms(5)] show ?thesis by simp
qed


text \<open>
  What the three operations do preserve. From a store whose spans have unique identifiers
  and pairwise non-meeting intervals per tier and video, every guarded sequence of
  \<open>addSpan\<close>, \<open>mergeSpans\<close> and \<open>clearOverlappingSpans\<close> leads to a store with
  pairwise non-meeting intervals again: \<open>addSpan\<close> and \<open>mergeSpans\<close> keep the
  invariant in every such store, \<open>clearOverlappingSpans\<close> in those where no marker
  anchors two span ends. And \<open>addSpan\<close> changes nothing when the new span's interval
  meets that of an existing span of its tier and video.
\<close>

lemma no_overlap_guarded:
  "(no_overlap st \<and> unique_span_ids st \<and> guarded ops st \<longrightarrow> no_overlap (run_span_ops ops st))
   \<and> ((\<exists>B\<in>set (spans st). same_track B span \<and>
         (case (span_interval (markers st) span, span_interval (markers st) B) of
            (Some I, Some J) \<Rightarrow> ivl_meet I J
          | _ \<Rightarrow> False))
       \<longrightarrow> addSpan uuid span st = st)"
proof (intro conjI impI)
  assume "no_overlap st \<and> unique_span_ids st \<and> guarded ops st"
  then show "no_overlap (run_span_ops ops st)" using run_keeps_invariant by blast
next
  assume "\<exists>B\<in>set (spans st). same_track B span \<and>
         (case (span_interval (markers st) span, span_interval (markers st) B) of
            (Some I, Some J) \<Rightarrow> ivl_meet I J
          | _ \<Rightarrow> False)"
  then obtain B where B: "B \<in> set (spans st)" "same_track B span"
    and c: "case (span_interval (markers st) span, span_interval (markers st) B) of
            (Some I, Some J) \<Rightarrow> ivl_meet I J
          | _ \<Rightarrow> False"
    by blast
  from c obtain I where I: "span_interval (markers st) span = Some I"
    by (cases "span_interval (markers st) span") simp_all
  from c I obtain J where J: "span_interval (markers st) B = Some J"
    by (cases "span_interval (markers st) B") simp_all
  from c I J have "ivl_meet I J" by simp
  with B I J show "addSpan uuid span st = st" by (rule addSpan_rejects_meeting)
qed

text \<open>
  C1. After any sequence of \<open>addSpan\<close>, \<open>mergeSpans\<close> and \<open>clearOverlappingSpans\<close>
  calls, no two distinct spans of one tier and video whose anchors exist should have
  half-open intervals that meet. The store breaks this where \<open>clearOverlappingSpans\<close>
  moves a marker that anchors other spans as well. From \<open>degenerate_store\<close>, which has
  no span, the three additions are all accepted and give the spans [0, 1000],
  [1000, 1000] and [1000, 2000], all anchored at marker p, with no two intervals meeting.
  Clearing [500, 800) trims the first by moving p to 500, which stretches the other two
  to [500, 1000] and [500, 2000]: two spans of one tier and video whose intervals meet.
\<close>

theorem clearOverlappingSpans_breaks_no_overlap:
  "no_overlap degenerate_store
   \<and> map (span_interval (markers (run_span_ops (take 3 degenerate_ops) degenerate_store)))
        (spans (run_span_ops (take 3 degenerate_ops) degenerate_store))
       = [Some (0, 1000), Some (1000, 1000), Some (1000, 2000)]
   \<and> no_overlap (run_span_ops (take 3 degenerate_ops) degenerate_store)
   \<and> map (span_interval (markers (run_span_ops degenerate_ops degenerate_store)))
        (spans (run_span_ops degenerate_ops degenerate_store))
       = [Some (0, 500), Some (500, 1000), Some (500, 2000)]
   \<and> map sp_tierId (spans (run_span_ops degenerate_ops degenerate_store))
       = [''tier1'', ''tier1'', ''tier1'']
   \<and> ivl_meet (500, 1000) (500, 2000)
   \<and> \<not> no_overlap (run_span_ops degenerate_ops degenerate_store)"
  by code_simp

theorem clearOverlappingSpans_breaks_no_overlap_witness:
  "no_overlap (run_span_ops (take 3 degenerate_ops) degenerate_store)
   \<and> \<not> no_overlap (run_span_ops degenerate_ops degenerate_store)"
  using clearOverlappingSpans_breaks_no_overlap by blast

section \<open>The single pending marker\<close>

lemma filter_map_le:
  assumes "\<And>x. x \<in> set xs \<Longrightarrow> P (f x) \<Longrightarrow> Q x"
  shows "length (filter P (map f xs)) \<le> length (filter Q xs)"
  using assms by (induction xs) auto

lemma single_pending_place:
  assumes "single_pending st" "pendingMarkerId st = None"
  shows "single_pending (snd (placeMarker uuid t tier video st))"
proof -
  have "unconfirmed st = []"
    using assms by (cases "unconfirmed st") (auto simp: single_pending_def)
  then show ?thesis
    by (simp add: single_pending_def unconfirmed_def placeMarker_def Let_def)
qed

lemma single_pending_confirm:
  assumes "single_pending st"
  shows "single_pending (confirmMarker i ty st)"
proof (cases "find_marker (markers st) i")
  case None
  then show ?thesis using assms by (simp add: confirmMarker_def)
next
  case (Some marker)
  let ?f = "\<lambda>m. if m_id m = i
                 then m\<lparr> m_typeId := ty, m_confirmed := True \<rparr>
                 else if (case snap_search (markers st) marker (spans st) of
                            None \<Rightarrow> False
                          | Some e \<Rightarrow> truthy e \<and> m_id m = e)
                 then m\<lparr> m_time := m_time marker \<rparr>
                 else m"
  have ms: "markers (confirmMarker i ty st) = map ?f (markers st)"
    and pd: "pendingMarkerId (confirmMarker i ty st)
              = (if pendingMarkerId st = Some i then None else pendingMarkerId st)"
    using Some by (simp_all add: confirmMarker_def Let_def)
  have le: "length (unconfirmed (confirmMarker i ty st)) \<le> length (unconfirmed st)"
    unfolding unconfirmed_def ms by (rule filter_map_le) (simp split: if_splits)
  have "pendingMarkerId (confirmMarker i ty st) = Some (m_id y)"
    if "y \<in> set (unconfirmed (confirmMarker i ty st))" for y
  proof -
    from that obtain x where x: "x \<in> set (markers st)" "y = ?f x" "\<not> m_confirmed y"
      unfolding unconfirmed_def ms by auto
    then have "m_id x \<noteq> i" "\<not> m_confirmed x" "m_id y = m_id x"
      by (auto split: if_splits)
    moreover from this x(1) assms have "pendingMarkerId st = Some (m_id x)"
      by (auto simp: single_pending_def unconfirmed_def list_all_iff)
    ultimately show ?thesis unfolding pd by simp
  qed
  with le assms show ?thesis
    by (auto simp: single_pending_def list_all_iff)
qed

lemma single_pending_cancel:
  assumes "single_pending st"
  shows "single_pending (cancelPendingMarker st)"
proof (cases "pendingMarkerId st")
  case None
  then show ?thesis using assms by (simp add: cancelPendingMarker_def)
next
  case (Some p)
  show ?thesis
  proof (cases "truthy p")
    case False
    then show ?thesis using assms Some by (simp add: cancelPendingMarker_def)
  next
    case True
    have "unconfirmed (cancelPendingMarker st) = []"
      using assms Some True
      by (auto simp: cancelPendingMarker_def unconfirmed_def single_pending_def
          list_all_iff filter_empty_conv)
    then show ?thesis by (simp add: single_pending_def)
  qed
qed

lemma single_pending_step:
  assumes "single_pending st"
    and "case op of PlaceMarker uuid t tier video \<Rightarrow> pendingMarkerId st = None | _ \<Rightarrow> True"
  shows "single_pending (apply_marker_op op st)"
  using assms
  by (cases op) (simp_all add: single_pending_place single_pending_confirm single_pending_cancel)

lemma single_pending_run:
  "single_pending st \<Longrightarrow> places_when_idle ops st \<Longrightarrow> single_pending (run_marker_ops ops st)"
proof (induction ops arbitrary: st)
  case Nil
  then show ?case by simp
next
  case (Cons op ops)
  from Cons.prems have "single_pending (apply_marker_op op st)"
    by (intro single_pending_step) simp_all
  with Cons show ?case by simp
qed

lemma places_when_idle_take:
  "places_when_idle ops st \<Longrightarrow> places_when_idle (take n ops) st"
proof (induction ops arbitrary: st n)
  case Nil
  then show ?case by simp
next
  case (Cons op ops)
  then show ?case by (cases n) simp_all
qed

lemma single_pending_initial: "single_pending initial_state"
  by (simp add: single_pending_def unconfirmed_def initial_state_def)


text \<open>
  C5, as the store implements it. From the empty store, after every prefix of a sequence of
  \<open>placeMarker\<close>, \<open>confirmMarker\<close> and \<open>cancelPendingMarker\<close> calls in which each
  \<open>placeMarker\<close> runs while no marker is pending, at most one marker is unconfirmed, and
  that marker is the pending one.
\<close>

theorem single_pending_when_placed_idle:
  assumes "places_when_idle ops initial_state"
  shows "single_pending (run_marker_ops (take n ops) initial_state)"
  by (rule single_pending_run [OF single_pending_initial places_when_idle_take [OF assms]])


theorem single_pending_when_placed_idle_witness:
  "places_when_idle idle_ops initial_state
   \<and> single_pending (run_marker_ops (take 5 idle_ops) initial_state)
   \<and> map m_id (unconfirmed (run_marker_ops (take 5 idle_ops) initial_state)) = [''m_u3'']"
proof -
  have h: "places_when_idle idle_ops initial_state"
    by code_simp
  have v: "map m_id (unconfirmed (run_marker_ops (take 5 idle_ops) initial_state)) = [''m_u3'']"
    by code_simp
  from single_pending_when_placed_idle [OF h, of 5] h v show ?thesis by blast
qed

text \<open>
  C5 as stated fails: \<open>placeMarker\<close> does not cancel the marker that is pending. Two
  placements in a row, as the timeline's draw gesture makes them, leave two unconfirmed
  markers.
\<close>

theorem two_placements_counterexample:
  "length (unconfirmed (run_marker_ops
      [PlaceMarker ''u1'' 500 ''tier1'' ''video1'', PlaceMarker ''u2'' 1500 ''tier1'' ''video1'']
      initial_state)) = 2"
  by code_simp

section \<open>Exporters and the clock\<close>

lemma json_object_second:
  "json_object ind ((k1, v1) # (k2, v2) # m # ms) =
     (''{'' @ [newline] @ ind @ ''  '' @ json_string k1 @ '': '' @ v1 @ '','' @ [newline]
       @ ind @ ''  '' @ json_string k2 @ '': '')
     @ v2
     @ ('','' @ [newline]
        @ join ('','' @ [newline]) (map (\<lambda>(k, v). ind @ ''  '' @ json_string k @ '': '' @ v) (m # ms))
        @ [newline] @ ind @ ''}'')"
  by (simp add: json_object_def)

lemma exportAnnotationsJson_members:
  "exportAnnotationsJson now ms sps tiers markerTypes videoName annotator version =
     json_object [] ((''video'', json_string videoName) # (''exportedAt'', json_string now)
                     # json_members ms sps tiers markerTypes annotator version)"
  by (simp add: exportAnnotationsJson_def)

lemma json_members_not_empty: "json_members ms sps tiers markerTypes annotator version \<noteq> []"
  by (simp add: json_members_def Let_def)

text \<open>
  For fixed arguments the JSON export is one fixed text with the quoted clock reading
  spliced in at one place, the \<open>exportedAt\<close> member.
\<close>

lemma exportAnnotationsJson_frame:
  "\<exists>P S. \<forall>now. exportAnnotationsJson now ms sps tiers markerTypes videoName annotator version
            = P @ json_string now @ S"
proof -
  obtain m rest where r: "json_members ms sps tiers markerTypes annotator version = m # rest"
    using json_members_not_empty[of ms sps tiers markerTypes annotator version]
    by (cases "json_members ms sps tiers markerTypes annotator version") simp_all
  show ?thesis
    unfolding exportAnnotationsJson_members r json_object_second by blast
qed

text \<open>A quoted string determines the string: every escaped character can be read back.\<close>

lemma hexval_nth_all: "\<forall>k\<in>{..<16::nat}. hexval (''0123456789abcdef'' ! k) = k"
  by code_simp

lemma hexval_nth: "k < 16 \<Longrightarrow> hexval (''0123456789abcdef'' ! k) = k"
  using hexval_nth_all by blast

lemma control_char_code:
  assumes "(of_char c :: nat) < 32"
  shows "char_of (16 * hexval (''0123456789abcdef'' ! ((of_char c :: nat) div 16))
                  + hexval (''0123456789abcdef'' ! ((of_char c :: nat) mod 16))) = c"
proof -
  let ?n = "of_char c :: nat"
  have "?n div 16 < 16" using assms by simp
  then have a: "hexval (''0123456789abcdef'' ! (?n div 16)) = ?n div 16" by (rule hexval_nth)
  have "?n mod 16 < 16" by simp
  then have b: "hexval (''0123456789abcdef'' ! (?n mod 16)) = ?n mod 16" by (rule hexval_nth)
  have "16 * (?n div 16) + ?n mod 16 = ?n" by simp
  then show ?thesis unfolding a b by (simp only: char_of_char)
qed

lemma json_decode_escape:
  "json_decode_first (json_escape c @ xs) = Some (c, xs)"
proof (cases "c = dquote \<or> c = backslash \<or> c = CHR 0x08 \<or> c = CHR 0x0C \<or> c = CHR 0x0A
              \<or> c = CHR 0x0D \<or> c = CHR 0x09")
  case True
  then show ?thesis
    by (auto simp: json_decode_first_def json_escape_def dquote_def backslash_def)
next
  case False
  note plainish = this
  show ?thesis
  proof (cases "(of_char c :: nat) < 32")
    case True
    from plainish True have "json_escape c = [backslash, CHR ''u'', CHR ''0'', CHR ''0'',
            ''0123456789abcdef'' ! ((of_char c :: nat) div 16),
            ''0123456789abcdef'' ! ((of_char c :: nat) mod 16)]"
      by (simp add: json_escape_def)
    then show ?thesis
      using control_char_code[OF True]
      by (simp add: json_decode_first_def dquote_def backslash_def)
  next
    case False
    with plainish show ?thesis
      by (simp add: json_decode_first_def json_escape_def)
  qed
qed

lemma json_escape_cancel:
  assumes "json_escape c @ xs = json_escape d @ ys"
  shows "c = d \<and> xs = ys"
proof -
  have "json_decode_first (json_escape c @ xs) = json_decode_first (json_escape d @ ys)"
    using assms by (rule arg_cong)
  then show ?thesis unfolding json_decode_escape by simp
qed

lemma json_escape_not_empty: "json_escape c @ xs \<noteq> []"
proof
  assume "json_escape c @ xs = []"
  then have "json_decode_first (json_escape c @ xs) = json_decode_first []" by (rule arg_cong)
  then show False unfolding json_decode_escape by (simp add: json_decode_first_def)
qed

lemma concat_json_escape_inj:
  "concat (map json_escape s) = concat (map json_escape t) \<Longrightarrow> s = t"
proof (induction s arbitrary: t)
  case Nil
  show ?case
  proof (cases t)
    case Nil
    then show ?thesis by simp
  next
    case (Cons d t')
    with Nil.prems have "json_escape d @ concat (map json_escape t') = []" by simp
    with json_escape_not_empty show ?thesis by blast
  qed
next
  case (Cons c s)
  show ?case
  proof (cases t)
    case Nil
    with Cons.prems have "json_escape c @ concat (map json_escape s) = []" by simp
    with json_escape_not_empty show ?thesis by blast
  next
    case (Cons d t')
    with Cons.prems have "json_escape c @ concat (map json_escape s)
        = json_escape d @ concat (map json_escape t')" by simp
    from json_escape_cancel[OF this] Cons.IH[of t'] Cons show ?thesis by simp
  qed
qed

lemma json_string_inj: "json_string s = json_string t \<Longrightarrow> s = t"
  by (rule concat_json_escape_inj) (simp add: json_string_def)

text \<open>
  C9, as the exporters are written. Any two invocations of \<open>exportMarkersCsv\<close> on the
  same input return the same string, whatever the clock reads. Two invocations of
  \<open>exportAnnotationsJson\<close> on the same input return the same string exactly when the
  clock reads the same at both.
\<close>

theorem exporters_and_the_clock:
  "invoke now1 (CsvExport ms tiers markerTypes videoName annotatorId sps_opt)
     = invoke now2 (CsvExport ms tiers markerTypes videoName annotatorId sps_opt)
   \<and> (invoke now1 (JsonExport ms sps tiers markerTypes videoName annotator version)
        = invoke now2 (JsonExport ms sps tiers markerTypes videoName annotator version))
       = (now1 = now2)"
proof -
  obtain m rest where r: "json_members ms sps tiers markerTypes annotator version = m # rest"
    using json_members_not_empty[of ms sps tiers markerTypes annotator version]
    by (cases "json_members ms sps tiers markerTypes annotator version") simp_all
  obtain P S where PS: "\<And>now. exportAnnotationsJson now ms sps tiers markerTypes videoName annotator version
      = P @ json_string now @ S"
    unfolding exportAnnotationsJson_members r json_object_second by blast
  have "now1 = now2"
    if "exportAnnotationsJson now1 ms sps tiers markerTypes videoName annotator version
        = exportAnnotationsJson now2 ms sps tiers markerTypes videoName annotator version"
  proof -
    from that have "json_string now1 @ S = json_string now2 @ S" unfolding PS by simp
    then have "json_string now1 = json_string now2" by simp
    then show ?thesis by (rule json_string_inj)
  qed
  then show ?thesis by auto
qed

theorem exporters_and_the_clock_witness:
  "invoke noon adjacent_csv = invoke second_after_noon adjacent_csv
   \<and> invoke noon adjacent_json \<noteq> invoke second_after_noon adjacent_json"
proof -
  have ne: "noon \<noteq> second_after_noon"
    by (simp add: noon_def second_after_noon_def)
  from exporters_and_the_clock
         [of noon "markers adjacent_store" "[gloss_tier]" "[sign_start_type]" "''clip.mp4''"
             "Some ''ed''" "Some (spans adjacent_store)" second_after_noon
             "spans adjacent_store" "Some ''ed''" None]
       ne
  show ?thesis unfolding adjacent_csv_def adjacent_json_def by simp
qed

text \<open>
  C9 as stated fails for the JSON exporter: the same arguments exported one second apart
  give different strings.
\<close>

theorem exportAnnotationsJson_counterexample:
  "exportAnnotationsJson ''2026-01-01T00:00:00.000Z'' [] [] [] [] ''clip.mp4'' None None
   \<noteq> exportAnnotationsJson ''2026-01-01T00:00:01.000Z'' [] [] [] [] ''clip.mp4'' None None"
  by code_simp

end
